theory Spec2Isabelle
  imports Main "HOL-Library.AList"
begin

section \<open>JavaScript values\<close>

text \<open>
  The documents that the programs handle are JSON documents. An object is the association
  list of its own enumerable properties in the order of \<^verbatim>\<open>Object.keys\<close> (insertion order);
  the keys of an object are distinct (\<open>wf_json\<close>). Numbers are the integers. \<^verbatim>\<open>undefined\<close>
  is \<open>None\<close> of \<open>json option\<close>. The prototype of an object is not part of a document: the
  objects are taken as \<^verbatim>\<open>JSON.parse\<close> and the object literals of the programs make them, with
  the built-in prototypes as the program finds them when it starts.
\<close>

datatype json =
    JNull
  | JBool bool
  | JNum int
  | JStr string
  | JArr "json list"
  | JObj "(string \<times> json) list"

text \<open>
  \<open>TypeError\<close> is the exception of the language (a property of \<^verbatim>\<open>null\<close> or \<^verbatim>\<open>undefined\<close>,
  a property stored on a primitive in strict mode); \<open>Failure m\<close> is \<^verbatim>\<open>new Error(m)\<close>.
  \<open>OutOfModel\<close> marks the runs on which the program continues with a value that \<open>json\<close>
  cannot hold (a function or a prototype read from a built-in prototype, an object whose
  prototype has been replaced, an array with a named property); nothing is stated about
  such runs.
\<close>

datatype error = TypeError | Failure string | OutOfModel

definition bind_err :: "error + 'a \<Rightarrow> ('a \<Rightarrow> error + 'b) \<Rightarrow> error + 'b" where
  "bind_err m f = (case m of Inl e \<Rightarrow> Inl e | Inr x \<Rightarrow> f x)"

fun fold_err :: "('a \<Rightarrow> 's \<Rightarrow> error + 's) \<Rightarrow> 'a list \<Rightarrow> 's \<Rightarrow> error + 's" where
  "fold_err f [] s = Inr s"
| "fold_err f (x # xs) s = (case f x s of Inl e \<Rightarrow> Inl e | Inr s' \<Rightarrow> fold_err f xs s')"

fun wf_json :: "json \<Rightarrow> bool" where
  "wf_json (JArr xs) = (\<forall>x \<in> set xs. wf_json x)"
| "wf_json (JObj kvs) = (distinct (map fst kvs) \<and> (\<forall>kv \<in> set kvs. wf_json (snd kv)))"
| "wf_json _ = True"

text \<open>Decimal notation of an array index, as a property key.\<close>

definition digit_char :: "nat \<Rightarrow> char" where
  "digit_char n = char_of (48 + n)"

function string_of_nat :: "nat \<Rightarrow> string" where
  "string_of_nat n =
     (if n < 10 then [digit_char n] else string_of_nat (n div 10) @ [digit_char (n mod 10)])"
  by pat_completeness auto
termination
  by (relation "measure id") auto

declare string_of_nat.simps [simp del]

text \<open>The own enumerable properties of a value, in the order of \<^verbatim>\<open>Object.keys\<close>.\<close>

fun own_props :: "json \<Rightarrow> (string \<times> json) list" where
  "own_props (JObj kvs) = kvs"
| "own_props (JArr xs) = zip (map string_of_nat [0..<length xs]) xs"
| "own_props (JStr s) = zip (map string_of_nat [0..<length s]) (map (\<lambda>c. JStr [c]) s)"
| "own_props _ = []"

text \<open>\<^verbatim>\<open>Object.keys(x)\<close>: a TypeError on \<^verbatim>\<open>null\<close> and \<^verbatim>\<open>undefined\<close>.\<close>

fun object_keys :: "json option \<Rightarrow> error + string list" where
  "object_keys None = Inl TypeError"
| "object_keys (Some JNull) = Inl TypeError"
| "object_keys (Some v) = Inr (map fst (own_props v))"

text \<open>
  The names of the members of the built-in prototypes (ECMAScript 2024 with its annex B):
  a value that does not own a property of such a name inherits it.
\<close>

definition object_prototype :: "string list" where
  "object_prototype =
     [''constructor'', ''__defineGetter__'', ''__defineSetter__'', ''hasOwnProperty'',
      ''__lookupGetter__'', ''__lookupSetter__'', ''isPrototypeOf'', ''propertyIsEnumerable'',
      ''toString'', ''valueOf'', ''__proto__'', ''toLocaleString'']"

definition array_prototype :: "string list" where
  "array_prototype =
     [''at'', ''concat'', ''copyWithin'', ''fill'', ''find'', ''findIndex'', ''findLast'',
      ''findLastIndex'', ''lastIndexOf'', ''pop'', ''push'', ''reverse'', ''shift'', ''unshift'',
      ''slice'', ''sort'', ''splice'', ''includes'', ''indexOf'', ''join'', ''keys'', ''entries'',
      ''values'', ''forEach'', ''filter'', ''flat'', ''flatMap'', ''map'', ''every'', ''some'',
      ''reduce'', ''reduceRight'', ''toReversed'', ''toSorted'', ''toSpliced'', ''with'']"

definition string_prototype :: "string list" where
  "string_prototype =
     [''anchor'', ''at'', ''big'', ''blink'', ''bold'', ''charAt'', ''charCodeAt'', ''codePointAt'',
      ''concat'', ''endsWith'', ''fontcolor'', ''fontsize'', ''fixed'', ''includes'', ''indexOf'',
      ''isWellFormed'', ''italics'', ''lastIndexOf'', ''link'', ''localeCompare'', ''match'',
      ''matchAll'', ''normalize'', ''padEnd'', ''padStart'', ''repeat'', ''replace'', ''replaceAll'',
      ''search'', ''slice'', ''small'', ''split'', ''strike'', ''sub'', ''substr'', ''substring'',
      ''sup'', ''startsWith'', ''toWellFormed'', ''trim'', ''trimStart'', ''trimLeft'', ''trimEnd'',
      ''trimRight'', ''toLocaleLowerCase'', ''toLocaleUpperCase'', ''toLowerCase'',
      ''toUpperCase'']"

definition number_prototype :: "string list" where
  "number_prototype = [''toExponential'', ''toFixed'', ''toPrecision'']"

text \<open>
  The property \<open>k\<close> of a value that does not own it: the length of an array or of a string,
  a member of a built-in prototype (a function, or the prototype for \<^verbatim>\<open>__proto__\<close>: outside
  the model), and \<^verbatim>\<open>undefined\<close> for every other name.
\<close>

fun inherited :: "json \<Rightarrow> string \<Rightarrow> error + json option" where
  "inherited (JArr xs) k =
     (if k = ''length'' then Inr (Some (JNum (int (length xs))))
      else if k \<in> set (array_prototype @ object_prototype) then Inl OutOfModel else Inr None)"
| "inherited (JStr s) k =
     (if k = ''length'' then Inr (Some (JNum (int (length s))))
      else if k \<in> set (string_prototype @ object_prototype) then Inl OutOfModel else Inr None)"
| "inherited (JNum n) k =
     (if k \<in> set (number_prototype @ object_prototype) then Inl OutOfModel else Inr None)"
| "inherited v k = (if k \<in> set object_prototype then Inl OutOfModel else Inr None)"

text \<open>
  \<^verbatim>\<open>x[k]\<close> and \<^verbatim>\<open>x.k\<close>: a TypeError on \<^verbatim>\<open>null\<close> and \<^verbatim>\<open>undefined\<close>, the own property if
  there is one, the inherited one otherwise.
\<close>

fun get_prop :: "json option \<Rightarrow> string \<Rightarrow> error + json option" where
  "get_prop None k = Inl TypeError"
| "get_prop (Some JNull) k = Inl TypeError"
| "get_prop (Some v) k =
     (case map_of (own_props v) k of Some w \<Rightarrow> Inr (Some w) | None \<Rightarrow> inherited v k)"

text \<open>
  \<^verbatim>\<open>obj[k] = v\<close> on the own properties of an object. An object that does not own the key
  \<^verbatim>\<open>__proto__\<close> inherits it as an accessor, so the assignment stores no property: the setter
  ignores a boolean, a number and a string, and makes \<^verbatim>\<open>null\<close> or an object the prototype
  of \<open>obj\<close>, which is outside the model (later reads of \<open>obj\<close> might find inherited
  properties there).
\<close>

definition put_prop :: "(string \<times> json) list \<Rightarrow> string \<Rightarrow> json \<Rightarrow> error + (string \<times> json) list" where
  "put_prop kvs k v =
     (if k = ''__proto__'' \<and> map_of kvs k = None then
        (case v of
           JBool b \<Rightarrow> Inr kvs
         | JNum n \<Rightarrow> Inr kvs
         | JStr s \<Rightarrow> Inr kvs
         | _ \<Rightarrow> Inl OutOfModel)
      else Inr (AList.update k v kvs))"

fun typeof :: "json option \<Rightarrow> string" where
  "typeof None = ''undefined''"
| "typeof (Some JNull) = ''object''"
| "typeof (Some (JBool b)) = ''boolean''"
| "typeof (Some (JNum n)) = ''number''"
| "typeof (Some (JStr s)) = ''string''"
| "typeof (Some (JArr xs)) = ''object''"
| "typeof (Some (JObj kvs)) = ''object''"

fun isArray :: "json option \<Rightarrow> bool" where
  "isArray (Some (JArr xs)) = True"
| "isArray _ = False"

fun truthy :: "json option \<Rightarrow> bool" where
  "truthy None = False"
| "truthy (Some JNull) = False"
| "truthy (Some (JBool b)) = b"
| "truthy (Some (JNum n)) = (n \<noteq> 0)"
| "truthy (Some (JStr s)) = (s \<noteq> [])"
| "truthy (Some (JArr xs)) = True"
| "truthy (Some (JObj kvs)) = True"

text \<open>
  \<^verbatim>\<open>Object.assign(target, source)\<close> on the own properties of an object \<open>target\<close>: each own
  property of the source is assigned to the target. The assignment of a key \<^verbatim>\<open>__proto__\<close>
  that the target does not own goes to the setter and stores no property, so the copy has
  no such key; the programs read the objects that they fill with \<^verbatim>\<open>Object.assign\<close> through
  own keys only.
\<close>

fun assign_props :: "(string \<times> json) list \<Rightarrow> (string \<times> json) list \<Rightarrow> (string \<times> json) list" where
  "assign_props target [] = target"
| "assign_props target (kv # kvs) =
     assign_props
       (if fst kv = ''__proto__'' \<and> map_of target (fst kv) = None then target
        else AList.update (fst kv) (snd kv) target)
       kvs"

fun object_assign :: "(string \<times> json) list \<Rightarrow> json option \<Rightarrow> (string \<times> json) list" where
  "object_assign target None = target"
| "object_assign target (Some v) = assign_props target (own_props v)"

section \<open>The structural diff\<close>

text \<open>
  Modelled from the spec: the structural diff between two documents and the application
  of one difference onto a document (\<^verbatim>\<open>observableDiff\<close> and \<^verbatim>\<open>applyChange\<close> of the package
  deep-diff 1.0, which \<^verbatim>\<open>package.json\<close> names as a dependency and whose code is not in the
  repository). A difference has a path of object keys and array indices. The differences
  of two arrays are found from the last index down; a key of the right-hand object that
  the left-hand one lacks is reported unless it is the empty string. A hole of an array is
  held as \<^verbatim>\<open>null\<close>.
\<close>

datatype pathelem = PKey string | PIdx nat

datatype item = ItemNew json | ItemDeleted json

datatype change =
    DiffNew "pathelem list" json
  | DiffDeleted "pathelem list" json
  | DiffEdit "pathelem list" json json
  | DiffArray "pathelem list" nat item

fun change_path :: "change \<Rightarrow> pathelem list" where
  "change_path (DiffNew p rhs) = p"
| "change_path (DiffDeleted p lhs) = p"
| "change_path (DiffEdit p lhs rhs) = p"
| "change_path (DiffArray p i it) = p"

fun realTypeOf :: "json \<Rightarrow> string" where
  "realTypeOf JNull = ''null''"
| "realTypeOf (JBool b) = ''boolean''"
| "realTypeOf (JNum n) = ''number''"
| "realTypeOf (JStr s) = ''string''"
| "realTypeOf (JArr xs) = ''array''"
| "realTypeOf (JObj kvs) = ''object''"

fun deepDiff :: "json \<Rightarrow> json \<Rightarrow> pathelem list \<Rightarrow> change list"
  and diff_elems :: "json list \<Rightarrow> json list \<Rightarrow> pathelem list \<Rightarrow> nat \<Rightarrow> change list"
  and diff_props :: "(string \<times> json) list \<Rightarrow> (string \<times> json) list \<Rightarrow> pathelem list \<Rightarrow> change list"
where
  "deepDiff (JArr xs) (JArr ys) p =
     map (\<lambda>i. DiffArray p i (ItemNew (ys ! i))) (rev [length xs..<length ys])
     @ map (\<lambda>j. DiffArray p j (ItemDeleted (xs ! j))) (rev [length ys..<length xs])
     @ diff_elems xs ys p 0"
| "deepDiff (JObj a) (JObj b) p =
     diff_props a b p
     @ map (\<lambda>kw. DiffNew (p @ [PKey (fst kw)]) (snd kw))
         (filter (\<lambda>kw. fst kw \<notin> fst ` set a \<and> fst kw \<noteq> []) b)"
| "deepDiff lhs rhs p =
     (if realTypeOf lhs \<noteq> realTypeOf rhs then [DiffEdit p lhs rhs]
      else if lhs \<noteq> rhs then [DiffEdit p lhs rhs] else [])"
| "diff_elems (x # xs) (y # ys) p i = diff_elems xs ys p (Suc i) @ deepDiff x y (p @ [PIdx i])"
| "diff_elems xs ys p i = []"
| "diff_props [] b p = []"
| "diff_props (kv # a) b p =
     (case map_of b (fst kv) of
        Some w \<Rightarrow> deepDiff (snd kv) w (p @ [PKey (fst kv)])
      | None \<Rightarrow> [DiffDeleted (p @ [PKey (fst kv)]) (snd kv)])
     @ diff_props a b p"

definition observableDiff :: "json \<Rightarrow> json \<Rightarrow> change list" where
  "observableDiff lhs rhs = deepDiff lhs rhs []"

fun key_of :: "pathelem \<Rightarrow> string" where
  "key_of (PKey k) = k"
| "key_of (PIdx n) = string_of_nat n"

text \<open>\<^verbatim>\<open>it[k]\<close>, \<^verbatim>\<open>it[k] = v\<close> and \<^verbatim>\<open>delete it[k]\<close> for a path element \<open>k\<close>.\<close>

fun get_elem :: "json \<Rightarrow> pathelem \<Rightarrow> error + json option" where
  "get_elem JNull k = Inl TypeError"
| "get_elem (JArr xs) (PIdx n) = Inr (if n < length xs then Some (xs ! n) else None)"
| "get_elem v k = get_prop (Some v) (key_of k)"

fun set_elem :: "json \<Rightarrow> pathelem \<Rightarrow> json \<Rightarrow> error + json" where
  "set_elem (JObj kvs) k v = bind_err (put_prop kvs (key_of k) v) (\<lambda>kvs'. Inr (JObj kvs'))"
| "set_elem (JArr xs) (PIdx n) v =
     Inr (JArr (if n < length xs then xs[n := v]
                else xs @ replicate (n - length xs) JNull @ [v]))"
| "set_elem JNull k v = Inl TypeError"
| "set_elem it k v = Inl OutOfModel"

fun delete_elem :: "json \<Rightarrow> pathelem \<Rightarrow> error + json" where
  "delete_elem (JObj kvs) k = Inr (JObj (AList.delete (key_of k) kvs))"
| "delete_elem (JArr xs) (PIdx n) = Inr (JArr (if n < length xs then xs[n := JNull] else xs))"
| "delete_elem JNull k = Inl TypeError"
| "delete_elem (JBool b) k = Inr (JBool b)"
| "delete_elem (JNum n) k = Inr (JNum n)"
| "delete_elem it k = Inl OutOfModel"

text \<open>\<^verbatim>\<open>arrayRemove(arr, from)\<close>: the elements after \<open>from\<close> move down by one.\<close>

definition arrayRemove :: "json list \<Rightarrow> nat \<Rightarrow> json list" where
  "arrayRemove arr n =
     (if n < length arr then take n arr @ drop (Suc n) arr
      else arr @ replicate (n - length arr) JNull)"

text \<open>\<^verbatim>\<open>applyArrayChange(arr, index, item)\<close> for an item without a path.\<close>

fun applyArrayChange :: "json \<Rightarrow> nat \<Rightarrow> item \<Rightarrow> error + json" where
  "applyArrayChange (JArr xs) index (ItemDeleted lhs) = Inr (JArr (arrayRemove xs index))"
| "applyArrayChange arr index (ItemDeleted lhs) = Inl TypeError"
| "applyArrayChange arr index (ItemNew rhs) = set_elem arr (PIdx index) rhs"

text \<open>The \<^verbatim>\<open>switch\<close> of \<^verbatim>\<open>applyChange\<close>, on the object \<open>it\<close> that the path has led to.\<close>

fun apply_last :: "json \<Rightarrow> pathelem \<Rightarrow> change \<Rightarrow> error + json" where
  "apply_last it k (DiffArray p index item) =
     bind_err (get_elem it k) (\<lambda>child.
       case child of
         None \<Rightarrow>
           bind_err (set_elem it k (JArr [])) (\<lambda>it'.
           bind_err (applyArrayChange (JArr []) index item) (\<lambda>arr'. set_elem it' k arr'))
       | Some arr \<Rightarrow>
           bind_err (applyArrayChange arr index item) (\<lambda>arr'. set_elem it k arr'))"
| "apply_last it k (DiffDeleted p lhs) = delete_elem it k"
| "apply_last it k (DiffEdit p lhs rhs) = set_elem it k rhs"
| "apply_last it k (DiffNew p rhs) = set_elem it k rhs"

text \<open>
  The \<^verbatim>\<open>while\<close> loop of \<^verbatim>\<open>applyChange\<close> walks down the path, making an array or an
  object where the path leads to nothing; the document is changed at the end of the path.
\<close>

fun apply_at :: "json \<Rightarrow> pathelem list \<Rightarrow> change \<Rightarrow> error + json" where
  "apply_at it [] c = apply_last it (PKey ''undefined'') c"
| "apply_at it [k] c = apply_last it k c"
| "apply_at it (k # k' # rest) c =
     bind_err (get_elem it k) (\<lambda>child.
       case child of
         None \<Rightarrow>
           bind_err (set_elem it k (case k' of PIdx n \<Rightarrow> JArr [] | PKey s \<Rightarrow> JObj [])) (\<lambda>it'.
           bind_err (apply_at (case k' of PIdx n \<Rightarrow> JArr [] | PKey s \<Rightarrow> JObj []) (k' # rest) c)
             (\<lambda>child'. set_elem it' k child'))
       | Some ch \<Rightarrow>
           bind_err (apply_at ch (k' # rest) c) (\<lambda>child'. set_elem it k child'))"

definition applyChange :: "json \<Rightarrow> change \<Rightarrow> error + json" where
  "applyChange target c = apply_at target (change_path c) c"

section \<open>DiffHandler\<close>

text \<open>
  \<^verbatim>\<open>populateNonTruthClasses\<close>: the value stored for a key that is not a class of truth, in
  the order of the tests of the source (\<open>None\<close> when no test holds and nothing is stored).
\<close>

definition non_truth_copy :: "json option \<Rightarrow> json option" where
  "non_truth_copy v =
     (if typeof v = ''string'' then v
      else if typeof v = ''object'' then Some (JObj (object_assign [] v))
      else if isArray v then v
      else None)"

definition populate_step :: "json option \<Rightarrow> string list \<Rightarrow> string \<Rightarrow> (string \<times> json) list
    \<Rightarrow> error + (string \<times> json) list" where
  "populate_step declaration classesOfTruth key uninteresting =
     (if key \<notin> set classesOfTruth then
        bind_err (get_prop declaration key) (\<lambda>v.
          case non_truth_copy v of
            None \<Rightarrow> Inr uninteresting
          | Some c \<Rightarrow> put_prop uninteresting key c)
      else Inr uninteresting)"

definition populateNonTruthClasses :: "json option \<Rightarrow> string list \<Rightarrow> error + (string \<times> json) list" where
  "populateNonTruthClasses declaration classesOfTruth =
     bind_err (object_keys declaration) (\<lambda>keys.
       fold_err (populate_step declaration classesOfTruth) keys [])"

text \<open>\<^verbatim>\<open>diff.path[1]\<close> when it is a string.\<close>

fun path1 :: "change \<Rightarrow> string option" where
  "path1 c = (case change_path c of k0 # PKey k # rest \<Rightarrow> Some k | _ \<Rightarrow> None)"

text \<open>The observer that \<^verbatim>\<open>process\<close> gives to \<^verbatim>\<open>observableDiff\<close>.\<close>

definition observe :: "string list \<Rightarrow> change \<Rightarrow> json \<times> string list \<Rightarrow> error + json \<times> string list" where
  "observe classesOfTruth diff st =
     (case path1 diff of
        None \<Rightarrow> Inr st
      | Some k \<Rightarrow>
          if k \<in> set classesOfTruth then
            bind_err (applyChange (fst st) diff) (\<lambda>from'.
              Inr (from', if k \<notin> set (snd st) then snd st @ [k] else snd st))
          else Inr st)"

text \<open>The copy of an updated class into \<^verbatim>\<open>final.Common\<close>.\<close>

definition truth_copy :: "json option \<Rightarrow> json" where
  "truth_copy v =
     (case v of
        Some (JStr s) \<Rightarrow> JStr s
      | Some (JArr xs) \<Rightarrow> JArr xs
      | _ \<Rightarrow> JObj (object_assign [] v))"

definition copy_updated :: "json \<Rightarrow> string \<Rightarrow> (string \<times> json) list \<Rightarrow> error + (string \<times> json) list" where
  "copy_updated from path finalCommon =
     bind_err (get_prop (Some from) ''Common'') (\<lambda>fromCommon.
     bind_err (get_prop fromCommon path) (\<lambda>v.
       put_prop finalCommon path (truth_copy v)))"

text \<open>
  \<^verbatim>\<open>DiffHandler.process\<close>. \<^verbatim>\<open>JSON.parse(JSON.stringify(x))\<close> gives a document equal to \<open>x\<close>,
  so \<open>to\<close> and \<open>from\<close> are the arguments; the result is the document that the promise
  is resolved with.
\<close>

definition process :: "string list \<Rightarrow> json \<Rightarrow> json \<Rightarrow> error + json" where
  "process classesOfTruth toDeclaration fromDeclaration =
     bind_err (get_prop (Some toDeclaration) ''Common'') (\<lambda>toCommon.
     bind_err (populateNonTruthClasses toCommon classesOfTruth) (\<lambda>finalCommon.
     bind_err (fold_err (observe classesOfTruth)
                 (observableDiff fromDeclaration toDeclaration) (fromDeclaration, []))
       (\<lambda>st.
     bind_err (fold_err (copy_updated (fst st)) (snd st) finalCommon) (\<lambda>finalCommon'.
       Inr (JObj [(''Common'', JObj finalCommon')])))))"

text \<open>\<^verbatim>\<open>doc.Common[K]\<close>, \<open>None\<close> when the document has no such value.\<close>

definition common_class :: "json \<Rightarrow> string \<Rightarrow> json option" where
  "common_class doc K =
     (case get_prop (Some doc) ''Common'' of
        Inr (Some c) \<Rightarrow> (case get_prop (Some c) K of Inr v \<Rightarrow> v | Inl e \<Rightarrow> None)
      | _ \<Rightarrow> None)"

subsection \<open>Deep equality and lists of differences\<close>

text \<open>
  Two documents are deep-equal when they are the same primitive, arrays of the same length
  with deep-equal elements, or objects with the same keys and deep-equal values; the order
  of the keys of an object does not matter.
\<close>

fun deep_equal :: "json \<Rightarrow> json \<Rightarrow> bool"
  and deep_equal_list :: "json list \<Rightarrow> json list \<Rightarrow> bool"
  and deep_equal_props :: "(string \<times> json) list \<Rightarrow> (string \<times> json) list \<Rightarrow> bool"
where
  "deep_equal (JArr xs) (JArr ys) = deep_equal_list xs ys"
| "deep_equal (JObj a) (JObj b) = (deep_equal_props a b \<and> set (map fst a) = set (map fst b))"
| "deep_equal x y = (x = y)"
| "deep_equal_list [] [] = True"
| "deep_equal_list (x # xs) (y # ys) = (deep_equal x y \<and> deep_equal_list xs ys)"
| "deep_equal_list xs ys = False"
| "deep_equal_props [] b = True"
| "deep_equal_props (kv # a) b =
     ((case map_of b (fst kv) of Some w \<Rightarrow> deep_equal (snd kv) w | None \<Rightarrow> False)
      \<and> deep_equal_props a b)"

text \<open>
  No object of the document, at any depth, has the empty string or \<^verbatim>\<open>__proto__\<close> as a key:
  the diff does not report the first as a new key, and the assignment of the second to an
  object that does not own it stores no property.
\<close>

fun plain_keys :: "json \<Rightarrow> bool" where
  "plain_keys (JArr xs) = (\<forall>x \<in> set xs. plain_keys x)"
| "plain_keys (JObj kvs) =
     (\<forall>kv \<in> set kvs. fst kv \<noteq> [] \<and> fst kv \<noteq> ''__proto__'' \<and> plain_keys (snd kv))"
| "plain_keys v = True"

text \<open>The differences of a list applied in turn, as the observer of \<^verbatim>\<open>process\<close> does.\<close>

definition apply_changes :: "change list \<Rightarrow> json \<Rightarrow> error + json" where
  "apply_changes cs target = fold_err (\<lambda>c t. applyChange t c) cs target"

text \<open>A difference with one more element in front of its path.\<close>

fun push :: "pathelem \<Rightarrow> change \<Rightarrow> change" where
  "push k (DiffNew p rhs) = DiffNew (k # p) rhs"
| "push k (DiffDeleted p lhs) = DiffDeleted (k # p) lhs"
| "push k (DiffEdit p lhs rhs) = DiffEdit (k # p) lhs rhs"
| "push k (DiffArray p i it) = DiffArray (k # p) i it"

text \<open>The document \<open>parent\<close> has \<open>child\<close> at the key or index \<open>k\<close>.\<close>

fun holds :: "json \<Rightarrow> pathelem \<Rightarrow> json \<Rightarrow> bool" where
  "holds (JObj kvs) (PKey s) child = (map_of kvs s = Some child)"
| "holds (JArr xs) (PIdx n) child = (n < length xs \<and> xs ! n = child)"
| "holds parent k child = False"

text \<open>
  The test of the observer, \<^verbatim>\<open>classesOfTruth.indexOf(diff.path[1]) !== -1\<close>, and the same test
  on a difference whose path lacks its first element.
\<close>

definition applied :: "string list \<Rightarrow> change \<Rightarrow> bool" where
  "applied classesOfTruth c = (case path1 c of Some k \<Rightarrow> k \<in> set classesOfTruth | None \<Rightarrow> False)"

definition head_in :: "string list \<Rightarrow> change \<Rightarrow> bool" where
  "head_in classesOfTruth c =
     (case change_path c of PKey k # rest \<Rightarrow> k \<in> set classesOfTruth | _ \<Rightarrow> False)"

text \<open>
  A member of the document other than \<^verbatim>\<open>Common\<close> is an object with the key \<open>K\<close>: a difference
  below it has \<open>K\<close> as \<^verbatim>\<open>path[1]\<close> as well.
\<close>

definition class_elsewhere :: "json \<Rightarrow> string \<Rightarrow> bool" where
  "class_elsewhere doc K =
     (\<exists>kv \<in> set (own_props doc). fst kv \<noteq> ''Common''
        \<and> (case snd kv of JObj m \<Rightarrow> K \<in> fst ` set m | _ \<Rightarrow> False))"

text \<open>Two documents that differ in the class \<^verbatim>\<open>DNS\<close>.\<close>

definition dns_desired :: json where
  "dns_desired =
     JObj [(''Common'', JObj [(''hostname'', JStr ''bigip.example.com''),
                              (''DNS'', JObj [(''nameServers'', JArr [JStr ''1.2.3.4'', JStr ''8.8.8.8''])])])]"

definition dns_current :: json where
  "dns_current =
     JObj [(''Common'', JObj [(''DNS'', JObj [(''nameServers'', JArr [JStr ''1.2.3.4'']),
                                              (''search'', JArr [JStr ''f5.com''])])])]"

section \<open>DeclarationParser\<close>

text \<open>The string that a value is turned into where it is used as a property key.\<close>

fun to_string :: "json \<Rightarrow> string"
  and join_elems :: "json list \<Rightarrow> string"
where
  "to_string JNull = ''null''"
| "to_string (JBool b) = (if b then ''true'' else ''false'')"
| "to_string (JNum n) = (if n < 0 then ''-'' @ string_of_nat (nat (- n)) else string_of_nat (nat n))"
| "to_string (JStr s) = s"
| "to_string (JArr xs) = join_elems xs"
| "to_string (JObj kvs) = ''[object Object]''"
| "join_elems [] = []"
| "join_elems [x] = (if x = JNull then [] else to_string x)"
| "join_elems (x # y # ys) = (if x = JNull then [] else to_string x) @ '','' @ join_elems (y # ys)"

fun to_key :: "json option \<Rightarrow> string" where
  "to_key None = ''undefined''"
| "to_key (Some v) = to_string v"

text \<open>
  \<^verbatim>\<open>obj[k] = v\<close> for a key given as a string, in strict mode: a TypeError on a primitive.
  An array that has been given a property is no JSON value any more, so a property stored
  on an array is outside the model.
\<close>

fun set_prop :: "json \<Rightarrow> string \<Rightarrow> json \<Rightarrow> error + json" where
  "set_prop (JObj kvs) k v = bind_err (put_prop kvs k v) (\<lambda>kvs'. Inr (JObj kvs'))"
| "set_prop (JArr xs) k v = Inl OutOfModel"
| "set_prop prim k v = Inl TypeError"

text \<open>\<^verbatim>\<open>delete obj[k]\<close> for a key that is not an index.\<close>

fun delete_prop :: "json \<Rightarrow> string \<Rightarrow> json" where
  "delete_prop (JObj kvs) k = JObj (AList.delete k kvs)"
| "delete_prop v k = v"

text \<open>\<^verbatim>\<open>obj[k1]...[kn]\<close> and \<^verbatim>\<open>obj[k1]...[kn] = v\<close>.\<close>

fun get_path :: "json option \<Rightarrow> string list \<Rightarrow> error + json option" where
  "get_path v [] = Inr v"
| "get_path v (k # ks) = bind_err (get_prop v k) (\<lambda>w. get_path w ks)"

fun set_path :: "json \<Rightarrow> string list \<Rightarrow> json \<Rightarrow> error + json" where
  "set_path obj [] v = Inr v"
| "set_path obj [k] v = set_prop obj k v"
| "set_path obj (k # k' # ks) v =
     bind_err (get_prop (Some obj) k) (\<lambda>child.
       case child of
         None \<Rightarrow> Inl TypeError
       | Some c \<Rightarrow> bind_err (set_path c (k' # ks) v) (\<lambda>c'. set_prop obj k c'))"

text \<open>\<^verbatim>\<open>if (!obj[k1]...[kn]) { obj[k1]...[kn] = {}; }\<close>\<close>

definition ensure :: "json \<Rightarrow> string list \<Rightarrow> error + json" where
  "ensure obj path =
     bind_err (get_path (Some obj) path) (\<lambda>cur.
       if \<not> truthy cur then set_path obj path (JObj []) else Inr obj)"

text \<open>
  \<^verbatim>\<open>forEach\<close> over the properties of an object, with a state; the callback may change the
  object that the property holds, and the properties are returned as they are left. The
  keys of an object are distinct, so a property is read before anything has changed it.
\<close>

fun traverse_props :: "(string \<Rightarrow> json \<Rightarrow> 's \<Rightarrow> error + 's \<times> json) \<Rightarrow> (string \<times> json) list \<Rightarrow> 's
    \<Rightarrow> error + 's \<times> (string \<times> json) list" where
  "traverse_props f [] s = Inr (s, [])"
| "traverse_props f (kv # kvs) s =
     bind_err (f (fst kv) (snd kv) s) (\<lambda>r.
     bind_err (traverse_props f kvs (fst r)) (\<lambda>r'.
       Inr (fst r', (fst kv, snd r) # snd r')))"

text \<open>The value whose properties have been left as \<open>props\<close>.\<close>

fun rebuild :: "json \<Rightarrow> (string \<times> json) list \<Rightarrow> json" where
  "rebuild (JObj kvs) props = JObj props"
| "rebuild (JArr xs) props = JArr (map snd props)"
| "rebuild v props = v"

text \<open>The constructor: \<^verbatim>\<open>this.declaration\<close> is a shallow copy of the declaration.\<close>

definition DeclarationParser :: "json \<Rightarrow> json" where
  "DeclarationParser declaration = JObj (object_assign [] (Some declaration))"

definition KEYS_TO_IGNORE :: "string list" where
  "KEYS_TO_IGNORE = [''schemaVersion'', ''class'']"

definition isKeyOfInterest :: "string \<Rightarrow> bool" where
  "isKeyOfInterest key = (key \<notin> set KEYS_TO_IGNORE)"

text \<open>The test of \<^verbatim>\<open>getTenants\<close> on one property of the declaration.\<close>

definition is_tenant :: "string \<Rightarrow> json \<Rightarrow> error + bool" where
  "is_tenant possibleTenant v =
     (if isKeyOfInterest possibleTenant then
        bind_err (get_prop (Some v) ''class'') (\<lambda>c.
          Inr (truthy c \<and> c = Some (JStr ''Tenant'')))
      else Inr False)"

fun getTenants :: "(string \<times> json) list \<Rightarrow> error + string list" where
  "getTenants [] = Inr []"
| "getTenants (kv # kvs) =
     bind_err (is_tenant (fst kv) (snd kv)) (\<lambda>b.
     bind_err (getTenants kvs) (\<lambda>rest.
       Inr (if b then fst kv # rest else rest)))"

definition full_name :: "json option \<Rightarrow> string \<Rightarrow> string \<Rightarrow> string" where
  "full_name containerType containerName key =
     (if containerType = Some (JStr ''System'') then key else containerName @ ''_'' @ key)"

text \<open>
  \<^verbatim>\<open>property.class\<close> when \<^verbatim>\<open>typeof property === 'object' && property.class\<close> holds, \<open>None\<close>
  otherwise; a TypeError when the property is \<^verbatim>\<open>null\<close>.
\<close>

definition property_class :: "json \<Rightarrow> error + json option" where
  "property_class property =
     (if typeof (Some property) = ''object'' then
        bind_err (get_prop (Some property) ''class'') (\<lambda>c.
          Inr (if truthy c then c else None))
      else Inr None)"

text \<open>
  The body of the innermost loop of \<^verbatim>\<open>parse\<close>, for a key of interest: the new \<open>parsed\<close>
  and the property as it is left (\<^verbatim>\<open>delete property.class\<close> acts on the object of the
  declaration).
\<close>

definition file_property :: "json option \<Rightarrow> string \<Rightarrow> string \<Rightarrow> string \<Rightarrow> json \<Rightarrow> json
    \<Rightarrow> error + json \<times> json" where
  "file_property containerType tenantName containerName key property parsed =
     bind_err (property_class property) (\<lambda>propertyClass.
       case propertyClass of
         Some pc \<Rightarrow>
           bind_err (ensure parsed [to_key containerType, tenantName, to_string pc]) (\<lambda>parsed1.
           bind_err (set_path parsed1
                       [to_key containerType, tenantName, to_string pc,
                        full_name containerType containerName key]
                       (JObj (object_assign [] (Some (delete_prop property ''class'')))))
             (\<lambda>parsed2. Inr (parsed2, delete_prop property ''class'')))
       | None \<Rightarrow>
           bind_err (set_path parsed
                       [to_key containerType, tenantName,
                        full_name containerType containerName key] property)
             (\<lambda>parsed1. Inr (parsed1, property)))"

definition parse_container :: "string \<Rightarrow> string \<Rightarrow> json \<Rightarrow> json \<Rightarrow> error + json \<times> json" where
  "parse_container tenantName containerName container parsed =
     bind_err (get_prop (Some container) ''class'') (\<lambda>containerType.
     bind_err (ensure parsed [to_key containerType]) (\<lambda>parsed1.
     bind_err (ensure parsed1 [to_key containerType, tenantName]) (\<lambda>parsed2.
     bind_err (traverse_props
                 (\<lambda>key property p.
                    if isKeyOfInterest key
                    then file_property containerType tenantName containerName key property p
                    else Inr (p, property))
                 (own_props container) parsed2)
       (\<lambda>r. Inr (fst r, rebuild container (snd r))))))"

definition parse_tenant :: "string \<Rightarrow> json \<Rightarrow> json \<Rightarrow> error + json \<times> json" where
  "parse_tenant tenantName tenant parsed =
     bind_err (traverse_props
                 (\<lambda>containerName container p.
                    if isKeyOfInterest containerName
                    then parse_container tenantName containerName container p
                    else Inr (p, container))
                 (own_props tenant) parsed)
       (\<lambda>r. Inr (fst r, rebuild tenant (snd r)))"

text \<open>
  \<^verbatim>\<open>parse\<close>, on \<^verbatim>\<open>this.declaration\<close>. Besides the two fields that the source returns, the
  result has \<^verbatim>\<open>this.declaration\<close> as the call leaves it; its member objects are the
  objects of the declaration that the constructor was given.
\<close>

record parse_result =
  tenants :: "string list"
  parsedDeclaration :: json
  declaration_after :: json

definition parse :: "json \<Rightarrow> error + parse_result" where
  "parse this_declaration =
     bind_err (getTenants (own_props this_declaration)) (\<lambda>tenants.
     bind_err (traverse_props
                 (\<lambda>tenantName tenant p.
                    if tenantName \<in> set tenants then parse_tenant tenantName tenant p
                    else Inr (p, tenant))
                 (own_props this_declaration) (JObj []))
       (\<lambda>r. Inr \<lparr>tenants = tenants, parsedDeclaration = fst r,
                  declaration_after = rebuild this_declaration (snd r)\<rparr>))"



text \<open>
  Where the innermost loop of \<^verbatim>\<open>parse\<close> files a typed sub-instance and a property that is
  not one, and the object that it stores for a typed sub-instance.
\<close>

definition typed_path :: "json option \<Rightarrow> string \<Rightarrow> string \<Rightarrow> string \<Rightarrow> json \<Rightarrow> string list" where
  "typed_path containerType tenantName containerName key pc =
     [to_key containerType, tenantName, to_string pc, full_name containerType containerName key]"


definition stored_bag :: "json \<Rightarrow> json" where
  "stored_bag property = JObj (object_assign [] (Some (delete_prop property ''class'')))"




text \<open>
  The places at which \<^verbatim>\<open>parse\<close> files the typed sub-instances, each with the object
  stored there: those of a container, of a tenant, of the declaration.
\<close>

definition container_typed_filings :: "string \<Rightarrow> string \<Rightarrow> json \<Rightarrow> (string list \<times> json) list" where
  "container_typed_filings tenantName containerName container =
     (case get_prop (Some container) ''class'' of
        Inl e \<Rightarrow> []
      | Inr containerType \<Rightarrow>
          concat (map (\<lambda>kv. case property_class (snd kv) of
                              Inr (Some pc) \<Rightarrow>
                                [(typed_path containerType tenantName containerName (fst kv) pc,
                                  stored_bag (snd kv))]
                            | _ \<Rightarrow> [])
                    (filter (\<lambda>kv. isKeyOfInterest (fst kv)) (own_props container))))"

definition tenant_typed_filings :: "string \<Rightarrow> json \<Rightarrow> (string list \<times> json) list" where
  "tenant_typed_filings tenantName tenant =
     concat (map (\<lambda>kv. container_typed_filings tenantName (fst kv) (snd kv))
               (filter (\<lambda>kv. isKeyOfInterest (fst kv)) (own_props tenant)))"

definition typed_filings :: "json \<Rightarrow> (string list \<times> json) list" where
  "typed_filings this_declaration =
     (case getTenants (own_props this_declaration) of
        Inl e \<Rightarrow> []
      | Inr ts \<Rightarrow>
          concat (map (\<lambda>kv. tenant_typed_filings (fst kv) (snd kv))
                    (filter (\<lambda>kv. fst kv \<in> set ts) (own_props this_declaration))))"

text \<open>The declaration of the comment that heads \<^verbatim>\<open>declarationParser.js\<close>, shortened.\<close>

definition doc_example :: json where
  "doc_example =
     JObj [(''schemaVersion'', JStr ''0.1.0''), (''class'', JStr ''Device''),
       (''Common'', JObj [(''class'', JStr ''Tenant''),
          (''mySystem'', JObj [(''class'', JStr ''System''),
              (''hostname'', JStr ''bigip.example.com''),
              (''myDns'', JObj [(''class'', JStr ''DNS''),
                                (''nameServers'', JArr [JStr ''1.2.3.4''])])]),
          (''myNetwork'', JObj [(''class'', JStr ''Network''),
              (''commonVlan'', JObj [(''class'', JStr ''VLAN''), (''tag'', JNum 2345),
                  (''1.1'', JObj [(''class'', JStr ''Interface''), (''tagged'', JBool True)])])])])]"

text \<open>A tenant with two containers \<open>A\<close> and \<open>B\<close> that each hold a sub-instance \<open>x\<close>.\<close>

definition two_containers :: json where
  "two_containers =
     JObj [(''class'', JStr ''Device''),
       (''Common'', JObj [(''class'', JStr ''Tenant''),
          (''A'', JObj [(''class'', JStr ''Network''),
              (''x'', JObj [(''class'', JStr ''VLAN''), (''tag'', JNum 100)])]),
          (''B'', JObj [(''class'', JStr ''Network''),
              (''x'', JObj [(''class'', JStr ''VLAN''), (''tag'', JNum 200)])])])]"


text \<open>
  Two successive normalizations of one declaration object: the second parser is made from
  the declaration as the first call has left it. The result holds the parsed document of
  the first call and that of the second.
\<close>

definition parse_twice :: "json \<Rightarrow> error + json \<times> json" where
  "parse_twice declaration =
     bind_err (parse (DeclarationParser declaration)) (\<lambda>r1.
     bind_err (parse (DeclarationParser (declaration_after r1))) (\<lambda>r2.
       Inr (parsedDeclaration r1, parsedDeclaration r2)))"

section \<open>ConfigManager\<close>

text \<open>
  The config item descriptors are static data of the program, so they are records. A
  reference names the properties of interest of the referenced objects.
\<close>

record transformation =
  trans_id :: string
  trans_newId :: "string option"

record item_property =
  prop_id :: string
  newId :: "string option"
  truth :: "json option"
  skipWhenOmitted :: bool
  defaultWhenOmitted :: "json option"
  transform :: "transformation list option"

record schema_merge =
  merge_path :: "string list"
  action :: "string option"
  merge_skipWhenOmitted :: bool

record config_item =
  path :: string
  schemaClass :: "string option"
  properties :: "item_property list option"
  references :: "(string \<times> item_property list) list option"
  singleValue :: bool
  nameless :: bool
  silent :: bool
  ignore :: "(string \<times> string) list option"
  schemaMerge :: "schema_merge option"
  requiredModule :: "string option"

text \<open>
  What \<^verbatim>\<open>get\<close> uses and the repository does not hold: the modules \<^verbatim>\<open>querystring\<close> and
  \<^verbatim>\<open>url\<close> of Node.js (\<open>url_parse\<close> gives the \<^verbatim>\<open>pathname\<close> and the \<^verbatim>\<open>query\<close> of a link),
  the test of a regular expression on a value, and the constants \<^verbatim>\<open>RADIUS\<close> of
  \<^verbatim>\<open>sharedConstants\<close>. They are parameters of the model.
\<close>

record node_env =
  querystring_stringify :: "(string \<times> string) list \<Rightarrow> string"
  querystring_parse :: "string \<Rightarrow> (string \<times> string) list"
  url_parse :: "string \<Rightarrow> string \<times> string"
  regex_test :: "string \<Rightarrow> json \<Rightarrow> bool"
  RADIUS_SERVER_PREFIX :: string
  RADIUS_PRIMARY_SERVER :: string
  RADIUS_SECONDARY_SERVER :: string

text \<open>
  The device: the outcome of \<^verbatim>\<open>bigIp.list(path)\<close> for each path and of
  \<^verbatim>\<open>bigIp.deviceInfo()\<close>; \<open>Inl\<close> is a rejected promise.
\<close>

record big_ip =
  bigip_list :: "string \<Rightarrow> error + json"
  deviceInfo :: "error + json"

text \<open>The state of the task, of which \<^verbatim>\<open>get\<close> reads and writes two fields.\<close>

record task_state =
  currentConfig :: "json option"
  originalConfig :: "json option"

text \<open>
  Modelled from the spec: the snapshot store behind \<^verbatim>\<open>doState\<close> (the class \<^verbatim>\<open>State\<close> is not
  in the repository), \<^verbatim>\<open>get(deviceIdentity) -> NormalizedDocument | absent\<close> and
  \<^verbatim>\<open>set(deviceIdentity, NormalizedDocument)\<close>, keyed by the config id.
\<close>

type_synonym do_state = "string \<Rightarrow> json option"

definition getOriginalConfigByConfigId :: "do_state \<Rightarrow> json option \<Rightarrow> json option" where
  "getOriginalConfigByConfigId doState configId = doState (to_key configId)"

definition setOriginalConfigByConfigId :: "do_state \<Rightarrow> json option \<Rightarrow> json \<Rightarrow> do_state" where
  "setOriginalConfigByConfigId doState configId config = doState(to_key configId \<mapsto> config)"

text \<open>Strings.\<close>

definition starts_with :: "string \<Rightarrow> string \<Rightarrow> bool" where
  "starts_with p s = (take (length p) s = p)"

definition ends_with :: "string \<Rightarrow> string \<Rightarrow> bool" where
  "ends_with p s = (length p \<le> length s \<and> drop (length s - length p) s = p)"

text \<open>\<^verbatim>\<open>s.split(sep)\<close> for a separator that is not empty; \<open>cur\<close> is the part being read.\<close>

function split_at :: "string \<Rightarrow> string \<Rightarrow> string \<Rightarrow> string list" where
  "split_at sep cur [] = [cur]"
| "split_at sep cur (c # cs) =
     (if sep \<noteq> [] \<and> starts_with sep (c # cs)
      then cur # split_at sep [] (drop (length sep) (c # cs))
      else split_at sep (cur @ [c]) cs)"
  by pat_completeness auto
termination
  by (relation "measure (\<lambda>(sep, cur, s). length s)") auto

definition split :: "string \<Rightarrow> string \<Rightarrow> string list" where
  "split sep s = split_at sep [] s"

text \<open>\<^verbatim>\<open>s.replace(/token/, by)\<close>: the first occurrence is replaced.\<close>

fun replace_first :: "string \<Rightarrow> string \<Rightarrow> string \<Rightarrow> string" where
  "replace_first token repl [] = []"
| "replace_first token repl (c # cs) =
     (if starts_with token (c # cs) then repl @ drop (length token) (c # cs)
      else c # replace_first token repl cs)"

text \<open>\<^verbatim>\<open>a === b\<close>: two objects are the same object only.\<close>

fun strict_eq :: "json option \<Rightarrow> json option \<Rightarrow> bool" where
  "strict_eq (Some (JArr xs)) b = False"
| "strict_eq (Some (JObj kvs)) b = False"
| "strict_eq a b = (a = b)"

text \<open>
  \<^verbatim>\<open>obj[k] = v\<close> on the properties of an object, for a value that may be \<^verbatim>\<open>undefined\<close>: a
  property that holds \<^verbatim>\<open>undefined\<close> is a property left out, as JSON writes it.
\<close>

fun set_opt :: "string \<Rightarrow> json option \<Rightarrow> (string \<times> json) list \<Rightarrow> (string \<times> json) list" where
  "set_opt k None props = AList.delete k props"
| "set_opt k (Some v) props = AList.update k v props"

text \<open>
  \<^verbatim>\<open>Promise.all\<close>: the results, or a rejection. The program is rejected with the rejection
  that comes first in time; the model has no time and takes the first of the list, so
  only what holds of every rejection of the list is stated of it.
\<close>

fun promise_all :: "(error + 'a) list \<Rightarrow> error + 'a list" where
  "promise_all [] = Inr []"
| "promise_all (p # ps) =
     (case p of
        Inl e \<Rightarrow> Inl e
      | Inr x \<Rightarrow> (case promise_all ps of Inl e \<Rightarrow> Inl e | Inr xs \<Rightarrow> Inr (x # xs)))"

definition removeUnusedKeys :: "json option \<Rightarrow> bool \<Rightarrow> (string \<times> json) list" where
  "removeUnusedKeys item without_name =
     filter (\<lambda>kv. \<not> ends_with ''Reference'' (fst kv)
                \<and> fst kv \<notin> set ([''kind'', ''selfLink''] @ (if without_name then [''name''] else [])))
       (object_assign [] item)"

definition getPropertiesOfInterest :: "item_property list option \<Rightarrow> string list" where
  "getPropertiesOfInterest initialProperties =
     (let propertyNames = map prop_id (case initialProperties of None \<Rightarrow> [] | Some ps \<Rightarrow> ps)
      in if ''name'' \<notin> set propertyNames then propertyNames @ [''name''] else propertyNames)"

definition mapTruth :: "(string \<times> json) list \<Rightarrow> item_property \<Rightarrow> json" where
  "mapTruth item property =
     (if \<not> truthy (map_of item (prop_id property)) then JBool False
      else JBool (strict_eq (map_of item (prop_id property)) (truth property)))"

text \<open>The \<^verbatim>\<open>reduce\<close> of \<^verbatim>\<open>mapNewId\<close> over the parts of a dotted name.\<close>

fun set_nested :: "json \<Rightarrow> string list \<Rightarrow> json option \<Rightarrow> error + json" where
  "set_nested acc [] v = Inr acc"
| "set_nested acc [k] v =
     (case v of
        Some w \<Rightarrow> set_prop acc k w
      | None \<Rightarrow> (case acc of JObj kvs \<Rightarrow> Inr (JObj (AList.delete k kvs)) | _ \<Rightarrow> set_prop acc k JNull))"
| "set_nested acc (cur # k # ks) v =
     bind_err (get_prop (Some acc) cur) (\<lambda>child.
       if \<not> truthy child then
         bind_err (set_prop acc cur (JObj [])) (\<lambda>acc'.
         bind_err (set_nested (JObj []) (k # ks) v) (\<lambda>child'. set_prop acc' cur child'))
       else
         (case child of
            None \<Rightarrow> Inl TypeError
          | Some c \<Rightarrow> bind_err (set_nested c (k # ks) v) (\<lambda>child'. set_prop acc cur child')))"

definition mapNewId :: "(string \<times> json) list \<Rightarrow> string \<Rightarrow> string \<Rightarrow> error + (string \<times> json) list" where
  "mapNewId mappedItem ident new =
     (if CHR ''.'' \<in> set new \<and> hd new \<noteq> CHR ''.'' then
        (if hd (split ''.'' new) = ident then Inl OutOfModel
         else
           bind_err (set_nested (JObj mappedItem) (split ''.'' new) (map_of mappedItem ident)) (\<lambda>m.
             Inr (AList.delete ident (own_props m))))
      else Inr (AList.delete ident (set_opt new (map_of mappedItem ident) mappedItem)))"

text \<open>One transformation of a \<^verbatim>\<open>transform\<close> list, on the copy \<open>orig\<close> of the value.\<close>

definition apply_transform :: "(string \<times> json) list \<Rightarrow> transformation \<Rightarrow> (string \<times> json) list
    \<Rightarrow> error + (string \<times> json) list" where
  "apply_transform orig tr mappedItem =
     bind_err (if truthy (map_of orig (trans_id tr)) then Inr (map_of orig (trans_id tr))
               else get_prop (map_of orig ''0'') (trans_id tr)) (\<lambda>propertyVal.
       Inr (set_opt (case trans_newId tr of Some n \<Rightarrow> n | None \<Rightarrow> trans_id tr)
              propertyVal mappedItem))"

text \<open>The body of the loop of \<^verbatim>\<open>mapProperties\<close> over the properties of a descriptor.\<close>

definition map_property :: "item_property \<Rightarrow> (string \<times> json) list \<Rightarrow> error + (string \<times> json) list" where
  "map_property property mappedItem0 =
     (let mappedItem1 =
            (if truth property \<noteq> None
                \<and> (map_of mappedItem0 (prop_id property) \<noteq> None \<or> \<not> skipWhenOmitted property)
             then AList.update (prop_id property) (mapTruth mappedItem0 property) mappedItem0
             else mappedItem0)
      in
      bind_err
        (case map_of mappedItem1 (prop_id property) of
           Some v \<Rightarrow>
             (let v' = (case v of
                          JStr s \<Rightarrow> if starts_with ''/Common/'' s
                                    then JStr (drop (length ''/Common/'') s) else v
                        | _ \<Rightarrow> v);
                  mappedItem2 = AList.update (prop_id property) v' mappedItem1
              in
              case transform property of
                None \<Rightarrow> Inr (mappedItem2, True)
              | Some ts \<Rightarrow>
                  bind_err (fold_err (apply_transform (object_assign [] (Some v'))) ts
                              (AList.delete (prop_id property) mappedItem2))
                    (\<lambda>m. Inr (m, True)))
         | None \<Rightarrow>
             (case defaultWhenOmitted property of
                Some d \<Rightarrow> Inr (AList.update (prop_id property) d mappedItem1, True)
              | None \<Rightarrow> Inr (mappedItem1, False)))
        (\<lambda>r. if snd r \<and> newId property \<noteq> None
              then mapNewId (fst r) (prop_id property) (case newId property of Some n \<Rightarrow> n | None \<Rightarrow> [])
              else Inr (fst r)))"

definition mapProperties :: "config_item \<Rightarrow> (string \<times> json) list \<Rightarrow> error + json option" where
  "mapProperties configItem item =
     (let mappedItem = assign_props [] item in
      if singleValue configItem then
        (case properties configItem of
           Some (p # ps) \<Rightarrow> Inr (map_of mappedItem (prop_id p))
         | _ \<Rightarrow> Inl TypeError)
      else
        (case properties configItem of
           None \<Rightarrow> Inl TypeError
         | Some ps \<Rightarrow> bind_err (fold_err map_property ps mappedItem) (\<lambda>m. Inr (Some (JObj m)))))"

definition patchSelfIp :: "json option \<Rightarrow> json" where
  "patchSelfIp selfIp =
     (let patched = object_assign [] selfIp in
      if \<not> truthy (map_of patched ''allowService'')
      then JObj (AList.update ''allowService'' (JStr ''none'') patched)
      else (case map_of patched ''allowService'' of
              Some (JArr [x]) \<Rightarrow>
                if strict_eq (Some x) (Some (JStr ''default''))
                then JObj (AList.update ''allowService'' (JStr ''default'') patched)
                else JObj patched
            | _ \<Rightarrow> JObj patched))"

text \<open>
  The end of \<^verbatim>\<open>mapSchemaMerge\<close>, on the object \<open>pointer\<close> that the path has led to, and
  its \<^verbatim>\<open>reduce\<close> along the path. \<^verbatim>\<open>Object.assign\<close> onto a value that is not an object is
  outside the model.
\<close>

definition merge_last :: "json \<Rightarrow> string \<Rightarrow> json option \<Rightarrow> string option \<Rightarrow> error + json" where
  "merge_last pointer key v act =
     (if act = Some ''add'' then
        bind_err (get_prop (Some pointer) key) (\<lambda>cur.
          case cur of
            None \<Rightarrow> set_prop pointer key (JObj (object_assign [] v))
          | Some (JObj kvs) \<Rightarrow> set_prop pointer key (JObj (object_assign kvs v))
          | Some other \<Rightarrow> Inl OutOfModel)
      else set_nested pointer [key] v)"

fun merge_at :: "json \<Rightarrow> string list \<Rightarrow> string \<Rightarrow> json option \<Rightarrow> string option \<Rightarrow> error + json" where
  "merge_at acc [] key v act = merge_last acc key v act"
| "merge_at acc (seg # rest) key v act =
     bind_err (get_prop (Some acc) seg) (\<lambda>child.
       case child of
         None \<Rightarrow>
           bind_err (set_prop acc seg (JObj [])) (\<lambda>acc'.
           bind_err (merge_at (JObj []) rest key v act) (\<lambda>child'. set_prop acc' seg child'))
       | Some c \<Rightarrow> bind_err (merge_at c rest key v act) (\<lambda>child'. set_prop acc seg child'))"

definition mapSchemaMerge :: "json \<Rightarrow> json option \<Rightarrow> schema_merge \<Rightarrow> error + json" where
  "mapSchemaMerge obj v opts =
     bind_err (case v of None \<Rightarrow> Inr True
               | Some w \<Rightarrow> bind_err (object_keys (Some w)) (\<lambda>ks. Inr (ks = []))) (\<lambda>isOmitted.
       if merge_skipWhenOmitted opts \<and> isOmitted then Inr obj
       else merge_at obj (butlast (merge_path opts))
              (if merge_path opts = [] then ''undefined'' else last (merge_path opts))
              v (action opts))"

text \<open>\<^verbatim>\<open>name.indexOf(prefix) > -1\<close> for a string.\<close>

fun contains :: "string \<Rightarrow> string \<Rightarrow> bool" where
  "contains p [] = (p = [])"
| "contains p (c # cs) = (starts_with p (c # cs) \<or> contains p cs)"

definition name_has :: "string \<Rightarrow> json option \<Rightarrow> error + bool" where
  "name_has p name =
     (if \<not> truthy name then Inr False
      else (case name of
              Some (JStr s) \<Rightarrow> Inr (contains p s)
            | Some (JArr xs) \<Rightarrow> Inr (JStr p \<in> set xs)
            | _ \<Rightarrow> Inl TypeError))"

definition patchAuth :: "node_env \<Rightarrow> schema_merge option \<Rightarrow> json option \<Rightarrow> json option \<Rightarrow> error + json" where
  "patchAuth env merge authClass authItem =
     (case merge of
        None \<Rightarrow>
          bind_err (get_prop authItem ''type'') (\<lambda>type.
            Inr (JObj (AList.delete ''type''
                   (set_opt ''enabledSourceType''
                      (if strict_eq type (Some (JStr ''active-directory''))
                       then Some (JStr ''activeDirectory'') else type)
                      (object_assign [] authItem)))))
      | Some opts \<Rightarrow>
          bind_err (get_prop authItem ''name'') (\<lambda>name.
          bind_err (name_has (RADIUS_SERVER_PREFIX env) name) (\<lambda>radius.
            mapSchemaMerge
              (JObj (if \<not> truthy authClass then [] else object_assign [] authClass))
              (if radius then
                 (if strict_eq name (Some (JStr (RADIUS_SECONDARY_SERVER env)))
                  then Some (JObj [(''secondary'', delete_prop (case authItem of Some a \<Rightarrow> a | None \<Rightarrow> JNull) ''name'')])
                  else if strict_eq name (Some (JStr (RADIUS_PRIMARY_SERVER env)))
                  then Some (JObj [(''primary'', delete_prop (case authItem of Some a \<Rightarrow> a | None \<Rightarrow> JNull) ''name'')])
                  else None)
               else Some (JObj (object_assign [] authItem)))
              opts)))"

fun ignore_match :: "node_env \<Rightarrow> json \<Rightarrow> (string \<times> string) list \<Rightarrow> error + bool" where
  "ignore_match env item [] = Inr False"
| "ignore_match env item (ignoreInfo # rest) =
     bind_err (get_prop (Some item) (fst ignoreInfo)) (\<lambda>v.
       case v of
         Some w \<Rightarrow> if truthy v \<and> regex_test env (snd ignoreInfo) w then Inr True
                   else ignore_match env item rest
       | None \<Rightarrow> ignore_match env item rest)"

definition shouldIgnore :: "node_env \<Rightarrow> json \<Rightarrow> (string \<times> string) list option \<Rightarrow> error + bool" where
  "shouldIgnore env item ignoreList =
     (case ignoreList of None \<Rightarrow> Inr False | Some l \<Rightarrow> ignore_match env item l)"

fun join :: "string \<Rightarrow> string list \<Rightarrow> string" where
  "join sep [] = []"
| "join sep [x] = x"
| "join sep (x # y # ys) = x @ sep @ join sep (y # ys)"

text \<open>What ties the result of a reference read to a config item.\<close>

record reference_info =
  ref_property :: string
  ref_schemaClass :: "string option"
  ref_name :: "json option"
  ref_properties :: "item_property list"

text \<open>
  The state of the loop over the results: the current config that is being built, the
  promises of the reference reads and the information about them.
\<close>

record fetch_state =
  building :: "(string \<times> json) list"
  referencePromises :: "(error + json) list"
  referenceInfo :: "reference_info list"

text \<open>The path of the read of a reference, from the link.\<close>

definition reference_path :: "node_env \<Rightarrow> string \<Rightarrow> item_property list \<Rightarrow> string" where
  "reference_path env link refProps =
     (let parsed = url_parse env link;
          query = AList.update ''$select'' (join '','' (getPropertiesOfInterest (Some refProps)))
                    (querystring_parse env (snd parsed));
          p = fst parsed @ ''?'' @ querystring_stringify env query
      in if starts_with ''/mgmt'' p then drop (length ''/mgmt'') p else p)"

text \<open>The body of the loop of \<^verbatim>\<open>getReferencedPaths\<close> over the keys of the item.\<close>

definition referenced_path :: "node_env \<Rightarrow> big_ip \<Rightarrow> config_item \<Rightarrow> json \<Rightarrow> string \<times> json \<Rightarrow> fetch_state
    \<Rightarrow> error + fetch_state" where
  "referenced_path env bigIp configItem item kv st =
     (case references configItem of
        None \<Rightarrow> Inr st
      | Some refs \<Rightarrow>
          (case map_of refs (fst kv) of
             None \<Rightarrow> Inr st
           | Some refProps \<Rightarrow>
               bind_err (get_prop (Some (snd kv)) ''link'') (\<lambda>link.
                 if \<not> truthy link then Inr st
                 else (case link of
                         Some (JStr l) \<Rightarrow>
                           if ends_with ''Reference'' (fst kv) \<and> length ''Reference'' < length (fst kv)
                           then
                             bind_err (get_prop (Some item) ''name'') (\<lambda>name.
                               Inr (st\<lparr>referencePromises := referencePromises st
                                          @ [bigip_list bigIp (reference_path env l refProps)],
                                        referenceInfo := referenceInfo st
                                          @ [\<lparr>ref_property =
                                                 take (length (fst kv) - length ''Reference'') (fst kv),
                                               ref_schemaClass = schemaClass configItem,
                                               ref_name = name,
                                               ref_properties = refProps\<rparr>]\<rparr>))
                           else Inl TypeError
                       | _ \<Rightarrow> Inl TypeError))))"

definition getReferencedPaths :: "node_env \<Rightarrow> big_ip \<Rightarrow> config_item \<Rightarrow> json \<Rightarrow> fetch_state
    \<Rightarrow> error + fetch_state" where
  "getReferencedPaths env bigIp configItem item st =
     bind_err (object_keys (Some item)) (\<lambda>ks.
       fold_err (referenced_path env bigIp configItem item) (own_props item) st)"

text \<open>\<^verbatim>\<open>x && x.k\<close> as a condition: the property of a truthy value, nothing otherwise.\<close>

definition and_prop :: "json option \<Rightarrow> string \<Rightarrow> json option" where
  "and_prop x k =
     (if truthy x then (case get_prop x k of Inr v \<Rightarrow> v | Inl e \<Rightarrow> None) else None)"

definition db_var_keys :: "json option \<Rightarrow> string list" where
  "db_var_keys vars =
     (case vars of
        None \<Rightarrow> []
      | Some v \<Rightarrow> filter (\<lambda>dbVar. dbVar \<noteq> ''class'') (map fst (own_props v)))"

text \<open>The db variables of a class \<^verbatim>\<open>DbVariables\<close> of the declaration.\<close>

definition declared_db_vars :: "string \<times> json \<Rightarrow> string list \<Rightarrow> error + string list" where
  "declared_db_vars kv acc =
     bind_err (get_prop (Some (snd kv)) ''class'') (\<lambda>cls.
       Inr (if strict_eq cls (Some (JStr ''DbVariables''))
            then acc @ db_var_keys (Some (snd kv)) else acc))"

definition dbVarsOfInterest :: "task_state \<Rightarrow> json \<Rightarrow> error + string list" where
  "dbVarsOfInterest state declaration =
     (let currentCurrentConfig =
            (if truthy (currentConfig state) then currentConfig state else Some (JObj []));
          fromState =
            (if truthy (and_prop (and_prop currentCurrentConfig ''Common'') ''DbVariables'')
             then db_var_keys (and_prop (and_prop currentCurrentConfig ''Common'') ''DbVariables'')
             else [])
      in
      bind_err (get_prop (Some declaration) ''Common'') (\<lambda>common.
        if truthy common
        then fold_err declared_db_vars (case common of Some c \<Rightarrow> own_props c | None \<Rightarrow> []) fromState
        else Inr fromState))"

text \<open>The names of the provisioned modules, from the result of the first read.\<close>

fun provisioned_names :: "json list \<Rightarrow> error + json option list" where
  "provisioned_names [] = Inr []"
| "provisioned_names (m # ms) =
     bind_err (get_prop (Some m) ''level'') (\<lambda>level.
     bind_err (provisioned_names ms) (\<lambda>rest.
       if \<not> strict_eq level (Some (JStr ''none''))
       then bind_err (get_prop (Some m) ''name'') (\<lambda>name. Inr (name # rest))
       else Inr rest))"

definition provisionedModules :: "json \<Rightarrow> error + json option list" where
  "provisionedModules provisioning =
     (case provisioning of JArr ms \<Rightarrow> provisioned_names ms | _ \<Rightarrow> Inl TypeError)"

text \<open>The devices whose host name is ours.\<close>

fun matching_devices :: "json option \<Rightarrow> json list \<Rightarrow> error + json list" where
  "matching_devices hostName [] = Inr []"
| "matching_devices hostName (device # ds) =
     bind_err (get_prop (Some device) ''hostname'') (\<lambda>h.
     bind_err (matching_devices hostName ds) (\<lambda>rest.
       Inr (if strict_eq h hostName then device # rest else rest)))"

text \<open>\<^verbatim>\<open>getTokenMap\<close>: the host name and the device name.\<close>

definition getTokenMap :: "big_ip \<Rightarrow> json \<Rightarrow> error + json option \<times> json option" where
  "getTokenMap bigIp info =
     bind_err (get_prop (Some info) ''hostname'') (\<lambda>hostName.
     bind_err (bigip_list bigIp ''/tm/cm/device'') (\<lambda>cmDeviceInfo.
       case cmDeviceInfo of
         JArr ds \<Rightarrow>
           bind_err (matching_devices hostName ds) (\<lambda>devices.
             case devices of
               [device] \<Rightarrow>
                 bind_err (get_prop (Some device) ''name'') (\<lambda>deviceName.
                   Inr (hostName, deviceName))
             | _ \<Rightarrow> Inl (Failure ''Too many devices match our name''))
       | _ \<Rightarrow> Inl TypeError))"

text \<open>The path of the read of a config item, with its query and the tokens replaced.\<close>

definition item_path :: "node_env \<Rightarrow> json option \<times> json option \<Rightarrow> config_item \<Rightarrow> string" where
  "item_path env tokenMap configItem =
     replace_first ''{{deviceName}}'' (to_key (snd tokenMap))
       (replace_first ''{{hostName}}'' (to_key (fst tokenMap))
          (path configItem @ ''?''
             @ querystring_stringify env
                 [(''$filter'', ''partition eq Common''),
                  (''$select'', join '','' (getPropertiesOfInterest (properties configItem)))]))"

text \<open>
  The read of a config item; an item whose required module is not provisioned is
  resolved with \<^verbatim>\<open>false\<close>.
\<close>

definition read_item :: "node_env \<Rightarrow> big_ip \<Rightarrow> json option list \<Rightarrow> json option \<times> json option
    \<Rightarrow> config_item \<Rightarrow> error + json" where
  "read_item env bigIp provisioned tokenMap configItem =
     (case requiredModule configItem of
        None \<Rightarrow> bigip_list bigIp (item_path env tokenMap configItem)
      | Some m \<Rightarrow>
          if m \<noteq> [] \<and> Some (JStr m) \<notin> set provisioned then Inr (JBool False)
          else bigip_list bigIp (item_path env tokenMap configItem))"

text \<open>\<^verbatim>\<open>name.split('/Common/')[1]\<close> when the name starts with \<^verbatim>\<open>/Common/\<close>.\<close>

definition strip_common :: "string \<Rightarrow> string" where
  "strip_common name =
     (if starts_with ''/Common/'' name
      then (case split ''/Common/'' name of a # b # rest \<Rightarrow> b | _ \<Rightarrow> name)
      else name)"

text \<open>The body of the loop over the items of an array result.\<close>

definition process_array_item :: "node_env \<Rightarrow> big_ip \<Rightarrow> config_item \<Rightarrow> string \<Rightarrow> string list
    \<Rightarrow> json \<Rightarrow> fetch_state \<Rightarrow> error + fetch_state" where
  "process_array_item env bigIp configItem cls dbVars item st =
     bind_err (shouldIgnore env item (ignore configItem)) (\<lambda>ignored.
       if ignored then Inr st
       else
         bind_err (mapProperties configItem (removeUnusedKeys (Some item) (nameless configItem)))
           (\<lambda>mapped.
         bind_err (get_prop (Some item) ''name'') (\<lambda>rawName.
         bind_err (case rawName of Some (JStr n) \<Rightarrow> Inr (strip_common n) | _ \<Rightarrow> Inl TypeError)
           (\<lambda>name.
         bind_err (if cls = ''RemoteAuthRole''
                   then (case mapped of
                           None \<Rightarrow> Inl TypeError
                         | Some m \<Rightarrow> bind_err (set_prop m ''name'' (JStr name)) (\<lambda>m'. Inr (Some m')))
                   else Inr mapped) (\<lambda>patched1.
         bind_err (Inr (if cls = ''SelfIp'' then Some (patchSelfIp patched1) else patched1))
           (\<lambda>patched2.
         bind_err (Inr (if cls = ''DbVariables'' \<and> rawName \<notin> set (map (\<lambda>v. Some (JStr v)) dbVars)
                        then Some JNull else patched2)) (\<lambda>patched3.
         bind_err (if cls = ''Authentication''
                   then bind_err (patchAuth env (schemaMerge configItem)
                                    (map_of (building st) cls) patched3)
                          (\<lambda>auth. Inr (AList.update cls auth (building st), Some JNull))
                   else Inr (building st, patched3)) (\<lambda>r.
         bind_err (if truthy (snd r)
                   then bind_err (ensure (JObj (fst r)) [cls]) (\<lambda>c1.
                        bind_err (set_path c1 [cls, name]
                                    (case snd r of Some v \<Rightarrow> v | None \<Rightarrow> JNull))
                          (\<lambda>c2. Inr (own_props c2)))
                   else Inr (fst r)) (\<lambda>cc.
           getReferencedPaths env bigIp configItem item (st\<lparr>building := cc\<rparr>))))))))))"

text \<open>The body of the loop over the remote servers of a \<^verbatim>\<open>SyslogRemoteServer\<close> item.\<close>

definition syslog_server :: "json \<Rightarrow> json \<Rightarrow> error + json" where
  "syslog_server server patchedItem =
     bind_err (get_prop (Some server) ''name'') (\<lambda>name.
       case name of
         Some (JStr n) \<Rightarrow>
           (let n' = (if contains ''/Common/'' n
                      then (case split ''/Common/'' n of a # b # rest \<Rightarrow> b | _ \<Rightarrow> n) else n)
            in set_prop patchedItem n'
                 (JObj (object_assign [] (Some (JObj (AList.update ''name'' (JStr n') (own_props server)))))))
       | Some (JArr xs) \<Rightarrow>
           if JStr ''/Common/'' \<in> set xs then Inl TypeError
           else set_prop patchedItem (to_string (JArr xs)) (JObj (object_assign [] (Some server)))
       | _ \<Rightarrow> Inl TypeError)"

text \<open>A result that is one object.\<close>

definition process_single :: "node_env \<Rightarrow> big_ip \<Rightarrow> config_item \<Rightarrow> string \<Rightarrow> json \<Rightarrow> fetch_state
    \<Rightarrow> error + fetch_state" where
  "process_single env bigIp configItem cls currentItem st =
     bind_err (shouldIgnore env currentItem (ignore configItem)) (\<lambda>ignored.
       if ignored then Inr st
       else
         bind_err (mapProperties configItem (removeUnusedKeys (Some currentItem) (nameless configItem)))
           (\<lambda>mapped.
         bind_err (if cls = ''Authentication''
                   then bind_err (patchAuth env (schemaMerge configItem)
                                    (map_of (building st) cls) mapped) (\<lambda>a. Inr (Some a))
                   else Inr mapped) (\<lambda>patched1.
         bind_err (if cls = ''SyslogRemoteServer''
                   then
                     bind_err (get_prop patched1 ''remoteServers'') (\<lambda>rs.
                     bind_err (case (if truthy rs then rs else Some (JArr [])) of
                                 Some (JArr servers) \<Rightarrow>
                                   fold_err syslog_server servers
                                     (case patched1 of Some v \<Rightarrow> v | None \<Rightarrow> JNull)
                               | _ \<Rightarrow> Inl TypeError) (\<lambda>p.
                       Inr (Some (delete_prop p ''remoteServers''))))
                   else Inr patched1) (\<lambda>patched2.
           getReferencedPaths env bigIp configItem currentItem
             (st\<lparr>building := set_opt cls patched2 (building st)\<rparr>)))))"

text \<open>The body of the loop over the results of the reads of the config items.\<close>

definition process_result :: "node_env \<Rightarrow> big_ip \<Rightarrow> string list \<Rightarrow> json \<times> config_item \<Rightarrow> fetch_state
    \<Rightarrow> error + fetch_state" where
  "process_result env bigIp dbVars r st =
     (if fst r = JBool False then Inr st
      else if \<not> truthy (map_option JStr (schemaClass (snd r))) then
        bind_err (object_keys (Some (fst r))) (\<lambda>ks.
          Inr (st\<lparr>building := assign_props (building st) (own_props (fst r))\<rparr>))
      else
        (case fst r of
           JArr items \<Rightarrow>
             if items = [] \<and> \<not> truthy (map_of (building st) (to_key (map_option JStr (schemaClass (snd r)))))
             then Inr (st\<lparr>building :=
                    AList.update (to_key (map_option JStr (schemaClass (snd r)))) (JObj []) (building st)\<rparr>)
             else fold_err (process_array_item env bigIp (snd r)
                              (to_key (map_option JStr (schemaClass (snd r)))) dbVars) items st
         | currentItem \<Rightarrow>
             process_single env bigIp (snd r) (to_key (map_option JStr (schemaClass (snd r))))
               currentItem st))"

text \<open>The body of the loop over the results of the reads of the references.\<close>

definition referenced_item :: "item_property list \<Rightarrow> json \<Rightarrow> json" where
  "referenced_item refProps reference =
     JObj (fold (\<lambda>refProperty patchedItem.
                   if truth refProperty \<noteq> None
                   then AList.update (prop_id refProperty) (mapTruth patchedItem refProperty) patchedItem
                   else patchedItem)
             refProps (removeUnusedKeys (Some reference) False))"

definition splice_reference :: "json \<times> reference_info \<Rightarrow> (string \<times> json) list
    \<Rightarrow> error + (string \<times> json) list" where
  "splice_reference r cc =
     bind_err (get_path (Some (JObj cc))
                 [to_key (map_option JStr (ref_schemaClass (snd r))), to_key (ref_name (snd r))])
       (\<lambda>configItem.
          case configItem of
            None \<Rightarrow> Inl TypeError
          | Some ci \<Rightarrow>
              bind_err (set_prop ci (ref_property (snd r)) (JArr [])) (\<lambda>ci0.
                case fst r of
                  JArr refs \<Rightarrow>
                    bind_err (set_path (JObj cc)
                                [to_key (map_option JStr (ref_schemaClass (snd r))),
                                 to_key (ref_name (snd r)), ref_property (snd r)]
                                (JArr (map (referenced_item (ref_properties (snd r))) refs)))
                      (\<lambda>c. Inr (own_props c))
                | _ \<Rightarrow> Inl TypeError))"

text \<open>
  Everything that \<^verbatim>\<open>get\<close> does before it assigns \<^verbatim>\<open>state.currentConfig\<close>: the config id
  and the current config, or the error that the promise is rejected with (an exception
  of the first, synchronous part is an error as well).
\<close>

definition fetch :: "node_env \<Rightarrow> config_item list \<Rightarrow> big_ip \<Rightarrow> json \<Rightarrow> task_state
    \<Rightarrow> error + json option \<times> (string \<times> json) list" where
  "fetch env configItems bigIp declaration state =
     bind_err (dbVarsOfInterest state declaration) (\<lambda>dbVars.
     bind_err (bigip_list bigIp ''/tm/sys/provision'') (\<lambda>provisioning.
     bind_err (provisionedModules provisioning) (\<lambda>provisioned.
     bind_err (deviceInfo bigIp) (\<lambda>info.
     bind_err (get_prop (Some info) ''machineId'') (\<lambda>configId.
     bind_err (getTokenMap bigIp info) (\<lambda>tokenMap.
     bind_err (promise_all (map (read_item env bigIp provisioned tokenMap) configItems)) (\<lambda>results.
     bind_err (fold_err (process_result env bigIp dbVars) (zip results configItems)
                 \<lparr>building = [], referencePromises = [], referenceInfo = []\<rparr>) (\<lambda>st.
     bind_err (promise_all (referencePromises st)) (\<lambda>referencesResults.
     bind_err (fold_err splice_reference (zip referencesResults (referenceInfo st)) (building st))
       (\<lambda>cc. Inr (configId, cc)))))))))))"

text \<open>
  The db variables of the current config that the original config does not have are
  added to it.
\<close>

definition fill_db_var :: "string \<times> json \<Rightarrow> json \<Rightarrow> error + json" where
  "fill_db_var kv original =
     bind_err (get_path (Some original) [''Common'', ''DbVariables'', fst kv]) (\<lambda>old.
       if \<not> truthy old
       then set_path original [''Common'', ''DbVariables'', fst kv] (snd kv)
       else Inr original)"

definition fill_db_vars :: "json \<Rightarrow> json \<Rightarrow> error + json" where
  "fill_db_vars currentDbVariables original =
     bind_err (get_path (Some original) [''Common'', ''DbVariables'']) (\<lambda>vars.
     bind_err (if \<not> truthy vars then set_path original [''Common'', ''DbVariables''] (JObj [])
               else Inr original) (\<lambda>original1.
       fold_err fill_db_var (own_props currentDbVariables) original1))"

text \<open>
  The end of \<^verbatim>\<open>get\<close>, from the assignment of \<^verbatim>\<open>state.currentConfig\<close> on: the error if
  there is one, the state and the snapshot store as they are left.
\<close>

definition commit :: "json option \<Rightarrow> (string \<times> json) list \<Rightarrow> task_state \<Rightarrow> do_state
    \<Rightarrow> error option \<times> task_state \<times> do_state" where
  "commit configId cc state doState =
     (let state1 = state\<lparr>currentConfig :=
                     Some (JObj [(''parsed'', JBool True), (''Common'', JObj cc)])\<rparr>;
          doState1 =
            (case originalConfig state of
               Some legacy \<Rightarrow>
                 if truthy (Some legacy) \<and> \<not> truthy (getOriginalConfigByConfigId doState configId)
                 then setOriginalConfigByConfigId doState configId legacy else doState
             | None \<Rightarrow> doState);
          original =
            (case getOriginalConfigByConfigId doState1 configId of
               Some orig \<Rightarrow> if truthy (Some orig) then orig
                            else JObj [(''parsed'', JBool True), (''Common'', JObj cc)]
             | None \<Rightarrow> JObj [(''parsed'', JBool True), (''Common'', JObj cc)])
      in
      case (case map_of cc ''DbVariables'' of
              Some vars \<Rightarrow> if truthy (Some vars) then fill_db_vars vars original else Inr original
            | None \<Rightarrow> Inr original) of
        Inl e \<Rightarrow> (Some e, state1, doState1)
      | Inr original' \<Rightarrow>
          (None, state1\<lparr>originalConfig := Some original'\<rparr>,
           setOriginalConfigByConfigId doState1 configId original'))"

text \<open>
  \<^verbatim>\<open>ConfigManager.get\<close>: \<open>None\<close> when the promise is resolved, the error when it is
  rejected, with the state and the snapshot store as the call leaves them.
\<close>

definition get :: "node_env \<Rightarrow> config_item list \<Rightarrow> big_ip \<Rightarrow> json \<Rightarrow> task_state \<Rightarrow> do_state
    \<Rightarrow> error option \<times> task_state \<times> do_state" where
  "get env configItems bigIp declaration state doState =
     (case fetch env configItems bigIp declaration state of
        Inl e \<Rightarrow> (Some e, state, doState)
      | Inr r \<Rightarrow> commit (fst r) (snd r) state doState)"

text \<open>Examples: stand-ins for the modules of Node.js, two descriptors, a device.\<close>

definition example_env :: node_env where
  "example_env =
     \<lparr>querystring_stringify = (\<lambda>q. join ''&'' (map (\<lambda>kv. fst kv @ ''='' @ snd kv) q)),
      querystring_parse = (\<lambda>q. []),
      url_parse = (\<lambda>l. (l, [])),
      regex_test = (\<lambda>r v. False),
      RADIUS_SERVER_PREFIX = ''system_auth_name'',
      RADIUS_PRIMARY_SERVER = ''system_auth_name1'',
      RADIUS_SECONDARY_SERVER = ''system_auth_name2''\<rparr>"

definition plain_property :: "string \<Rightarrow> item_property" where
  "plain_property i =
     \<lparr>prop_id = i, newId = None, truth = None, skipWhenOmitted = False,
      defaultWhenOmitted = None, transform = None\<rparr>"

definition db_item :: config_item where
  "db_item =
     \<lparr>path = ''/tm/sys/db'', schemaClass = Some ''DbVariables'',
      properties = Some [plain_property ''value''], references = None,
      singleValue = True, nameless = True, silent = True, ignore = None,
      schemaMerge = None, requiredModule = None\<rparr>"

definition foo_item :: config_item where
  "foo_item =
     \<lparr>path = ''/tm/net/thing'', schemaClass = Some ''Thing'',
      properties = Some [plain_property ''mtu''],
      references = Some [(''fooReference'', [plain_property ''bar''])],
      singleValue = False, nameless = True, silent = False, ignore = None,
      schemaMerge = None, requiredModule = None\<rparr>"

text \<open>A device with one module, one cm device, and the given result for every other path.\<close>

definition example_device :: "(string \<Rightarrow> error + json) \<Rightarrow> big_ip" where
  "example_device reads =
     \<lparr>bigip_list = (\<lambda>p.
        if p = ''/tm/sys/provision''
        then Inr (JArr [JObj [(''name'', JStr ''ltm''), (''level'', JStr ''nominal'')]])
        else if p = ''/tm/cm/device''
        then Inr (JArr [JObj [(''name'', JStr ''device1''), (''hostname'', JStr ''bigip1'')]])
        else reads p),
      deviceInfo = Inr (JObj [(''machineId'', JStr ''m1''), (''hostname'', JStr ''bigip1'')])\<rparr>"

definition db_reads :: "string \<Rightarrow> error + json" where
  "db_reads p =
     (if p = ''/tm/sys/db?$filter=partition eq Common&$select=value,name''
      then Inr (JArr [JObj [(''name'', JStr ''ui.advisory.text''), (''value'', JStr ''x'')]])
      else Inl (Failure ''not found''))"

definition db_declaration :: json where
  "db_declaration =
     JObj [(''Common'', JObj [(''myVars'', JObj [(''class'', JStr ''DbVariables''),
                                                  (''ui.advisory.text'', JStr ''x'')])])]"

definition snapshot_with :: "json \<Rightarrow> do_state" where
  "snapshot_with v =
     (\<lambda>k. None)(''m1'' \<mapsto>
        JObj [(''parsed'', JBool True),
              (''Common'', JObj [(''DbVariables'', JObj [(''ui.advisory.text'', v)])])])"

definition foo_reads :: "json \<Rightarrow> string \<Rightarrow> error + json" where
  "foo_reads result p =
     (if p = ''/tm/net/thing?$filter=partition eq Common&$select=mtu,name'' then Inr result
      else if p = ''/tm/net/thing/a/foo?$select=bar,name''
      then Inr (JArr [JObj [(''kind'', JStr ''k''), (''name'', JStr ''f1''), (''bar'', JNum 1)]])
      else Inl (Failure ''not found''))"

definition foo_instance :: "string \<Rightarrow> json" where
  "foo_instance name =
     JObj [(''name'', JStr name), (''mtu'', JNum 1500),
           (''fooReference'', JObj [(''link'', JStr ''/mgmt/tm/net/thing/a/foo'')])]"

section \<open>Properties of DiffHandler\<close>

lemma bind_err_Inr: "bind_err m f = Inr y \<longleftrightarrow> (\<exists>x. m = Inr x \<and> f x = Inr y)"
  by (cases m) (simp_all add: bind_err_def)

lemma bind_err_Inl: "bind_err m f = Inl e \<longleftrightarrow> m = Inl e \<or> (\<exists>x. m = Inr x \<and> f x = Inl e)"
  by (cases m) (simp_all add: bind_err_def)

lemma update_fresh: "k \<notin> fst ` set t \<Longrightarrow> AList.update k v t = t @ [(k, v)]"
  by (induction t) auto

text \<open>Reads and writes of own properties.\<close>

lemma put_prop_own: "map_of kvs k = Some c \<Longrightarrow> put_prop kvs k v = Inr (AList.update k v kvs)"
  by (simp add: put_prop_def)

lemma put_prop_plain: "k \<noteq> ''__proto__'' \<Longrightarrow> put_prop kvs k v = Inr (AList.update k v kvs)"
  by (simp add: put_prop_def)

lemma put_prop_Inr:
  "put_prop kvs k v = Inr kvs'
    \<Longrightarrow> kvs' = AList.update k v kvs \<or> (k = ''__proto__'' \<and> map_of kvs k = None \<and> kvs' = kvs)"
  by (auto simp: put_prop_def split: if_splits json.splits)

lemma put_prop_frame: "put_prop kvs k v = Inr kvs' \<Longrightarrow> k' \<noteq> k \<Longrightarrow> map_of kvs' k' = map_of kvs k'"
  by (auto dest!: put_prop_Inr simp: update_conv')


lemma get_prop_own: "map_of (own_props v) k = Some w \<Longrightarrow> get_prop (Some v) k = Inr (Some w)"
  by (cases v) simp_all



text \<open>A key that is no member of a built-in prototype is read among the own properties.\<close>

lemma get_prop_plain:
  assumes "v \<noteq> JNull" and "k \<noteq> ''length''"
    and "k \<notin> set (array_prototype @ string_prototype @ number_prototype @ object_prototype)"
  shows "get_prop (Some v) k = Inr (map_of (own_props v) k)"
proof -
  have i: "inherited v k = Inr None" using assms by (cases v) simp_all
  have "get_prop (Some v) k
      = (case map_of (own_props v) k of Some w \<Rightarrow> Inr (Some w) | None \<Rightarrow> inherited v k)"
    using assms(1) by (cases v) (auto simp del: own_props.simps)
  then show ?thesis unfolding i by (simp split: option.splits)
qed

lemma machineId_plain:
  "''machineId'' \<notin> set (array_prototype @ string_prototype @ number_prototype @ object_prototype)"
  by (simp add: array_prototype_def string_prototype_def number_prototype_def object_prototype_def)

lemma hostname_plain:
  "''hostname'' \<notin> set (array_prototype @ string_prototype @ number_prototype @ object_prototype)"
  by (simp add: array_prototype_def string_prototype_def number_prototype_def object_prototype_def)

lemma common_class_object: "common_class (JObj [(''Common'', JObj fc)]) K = map_of fc K"
  by (cases "map_of fc K") (auto simp: common_class_def)

text \<open>
  A shallow copy of an object with distinct keys has the properties of the object but
  \<^verbatim>\<open>__proto__\<close>, in their order.
\<close>

lemma assign_props_distinct:
  "distinct (map fst (t @ kvs)) \<Longrightarrow> ''__proto__'' \<notin> fst ` set t
    \<Longrightarrow> assign_props t kvs = t @ filter (\<lambda>kv. fst kv \<noteq> ''__proto__'') kvs"
proof (induction kvs arbitrary: t)
  case Nil
  then show ?case by simp
next
  case (Cons kv kvs)
  show ?case
  proof (cases "fst kv = ''__proto__''")
    case True
    have "map_of t ''__proto__'' = None" using Cons.prems(2) by (simp add: map_of_eq_None_iff)
    moreover have "distinct (map fst (t @ kvs))" using Cons.prems(1) by simp
    ultimately show ?thesis using True Cons.IH [of t] Cons.prems(2) by simp
  next
    case False
    have fresh: "fst kv \<notin> fst ` set t" using Cons.prems(1) by auto
    have "distinct (map fst ((t @ [kv]) @ kvs))" using Cons.prems(1) by simp
    moreover have "''__proto__'' \<notin> fst ` set (t @ [kv])" using Cons.prems(2) False by auto
    ultimately have "assign_props (t @ [kv]) kvs
        = (t @ [kv]) @ filter (\<lambda>kv. fst kv \<noteq> ''__proto__'') kvs"
      by (rule Cons.IH)
    then show ?thesis using fresh False by (simp add: update_fresh)
  qed
qed

lemma update_subset: "set (AList.update k v t) \<subseteq> insert (k, v) (set t)"
  by (induction t) auto

lemma assign_props_subset: "set (assign_props t kvs) \<subseteq> set t \<union> set kvs"
proof (induction kvs arbitrary: t)
  case Nil
  then show ?case by simp
next
  case (Cons kv kvs)
  let ?t = "if fst kv = ''__proto__'' \<and> map_of t (fst kv) = None then t
            else AList.update (fst kv) (snd kv) t"
  have "set (assign_props ?t kvs) \<subseteq> set ?t \<union> set kvs" by (rule Cons.IH)
  moreover have "set ?t \<subseteq> insert kv (set t)"
    using update_subset [of "fst kv" "snd kv" t] by auto
  moreover have "assign_props t (kv # kvs) = assign_props ?t kvs" by simp
  ultimately show ?case by (simp only: list.set) blast
qed

lemma assign_props_keys:
  "k \<noteq> ''__proto__''
    \<Longrightarrow> k \<in> fst ` set (assign_props t kvs) \<longleftrightarrow> k \<in> fst ` set t \<or> k \<in> fst ` set kvs"
proof (induction kvs arbitrary: t)
  case Nil
  then show ?case by simp
next
  case (Cons kv kvs)
  let ?t = "if fst kv = ''__proto__'' \<and> map_of t (fst kv) = None then t
            else AList.update (fst kv) (snd kv) t"
  have "set (map fst (AList.update (fst kv) (snd kv) t)) = insert (fst kv) (set (map fst t))"
    by (auto simp: update_keys)
  then have u: "fst ` set (AList.update (fst kv) (snd kv) t) = insert (fst kv) (fst ` set t)"
    by simp
  have "k \<in> fst ` set ?t \<longleftrightarrow> k \<in> fst ` set t \<or> k = fst kv"
    using Cons.prems u by auto
  moreover have "k \<in> fst ` set (assign_props ?t kvs) \<longleftrightarrow> k \<in> fst ` set ?t \<or> k \<in> fst ` set kvs"
    using Cons.prems by (rule Cons.IH)
  ultimately show ?case by auto
qed

lemma populate_fold:
  assumes "fold_err (populate_step (Some c) classes) keys u = Inr u'"
    and "set keys \<subseteq> fst ` set (own_props c)" and "K \<noteq> ''__proto__''"
  shows "map_of u' K =
     (if K \<in> set keys \<and> K \<notin> set classes \<and> non_truth_copy (map_of (own_props c) K) \<noteq> None
      then non_truth_copy (map_of (own_props c) K) else map_of u K)"
  using assms(1,2)
proof (induction keys arbitrary: u)
  case Nil
  then show ?case by simp
next
  case (Cons k keys)
  have "map_of (own_props c) k \<noteq> None"
    using Cons.prems(2) by (simp add: map_of_eq_None_iff)
  then obtain w where w: "map_of (own_props c) k = Some w" by auto
  then have gp: "get_prop (Some c) k = Inr (Some w)" by (rule get_prop_own)
  obtain u1 where step: "populate_step (Some c) classes k u = Inr u1"
    and rest: "fold_err (populate_step (Some c) classes) keys u1 = Inr u'"
    using Cons.prems(1) by (auto split: sum.splits)
  have u1: "map_of u1 K =
     (if K = k \<and> K \<notin> set classes \<and> non_truth_copy (map_of (own_props c) K) \<noteq> None
      then non_truth_copy (map_of (own_props c) K) else map_of u K)"
  proof (cases "K = k")
    case True
    then show ?thesis using step gp w assms(3)
      by (auto simp: populate_step_def bind_err_def put_prop_plain update_conv'
          split: if_splits option.splits)
  next
    case False
    then show ?thesis using step gp w
      by (auto simp: populate_step_def bind_err_def split: if_splits option.splits
          dest: put_prop_frame)
  qed
  have sub: "set keys \<subseteq> fst ` set (own_props c)" using Cons.prems(2) by simp
  show ?case
    using Cons.IH [OF rest sub] u1 by auto
qed

lemma populate_lookup:
  assumes "populateNonTruthClasses (Some c) classes = Inr u" and "K \<noteq> ''__proto__''"
  shows "map_of u K =
     (if K \<notin> set classes then non_truth_copy (map_of (own_props c) K) else None)"
proof -
  have nn: "c \<noteq> JNull" using assms(1)
    by (auto simp: populateNonTruthClasses_def bind_err_def)
  then have keys: "object_keys (Some c) = Inr (map fst (own_props c))"
    by (cases c) simp_all
  have f: "fold_err (populate_step (Some c) classes) (map fst (own_props c)) [] = Inr u"
    using assms(1) keys by (simp add: populateNonTruthClasses_def bind_err_def)
  have "map_of (own_props c) K = None" if "K \<notin> set (map fst (own_props c))"
    using that by (simp add: map_of_eq_None_iff)
  moreover have "non_truth_copy None = None" by (simp add: non_truth_copy_def)
  ultimately show ?thesis
    using populate_fold [OF f _ assms(2)] by auto
qed

text \<open>Only classes of truth are marked as updated.\<close>

lemma observe_fold_truth:
  "fold_err (observe classes) cs st = Inr st' \<Longrightarrow> set (snd st) \<subseteq> set classes
    \<Longrightarrow> set (snd st') \<subseteq> set classes"
proof (induction cs arbitrary: st)
  case Nil
  then show ?case by simp
next
  case (Cons c cs)
  obtain st1 where step: "observe classes c st = Inr st1"
    and rest: "fold_err (observe classes) cs st1 = Inr st'"
    using Cons.prems(1) by (auto split: sum.splits)
  have "set (snd st1) \<subseteq> set classes"
    using step Cons.prems(2)
    by (auto simp: observe_def bind_err_Inr split: option.splits if_splits)
  then show ?case using Cons.IH [OF rest] by simp
qed

lemma copy_fold_other:
  "fold_err (copy_updated from) paths fc = Inr fc' \<Longrightarrow> K \<notin> set paths
    \<Longrightarrow> map_of fc' K = map_of fc K"
proof (induction paths arbitrary: fc)
  case Nil
  then show ?case by simp
next
  case (Cons p paths)
  obtain fc1 where step: "copy_updated from p fc = Inr fc1"
    and rest: "fold_err (copy_updated from) paths fc1 = Inr fc'"
    using Cons.prems(1) by (auto split: sum.splits)
  have "map_of fc1 K = map_of fc K"
    using step Cons.prems(2) by (auto simp: copy_updated_def bind_err_Inr dest: put_prop_frame)
  then show ?case using Cons.IH [OF rest] Cons.prems(2) by simp
qed

lemma process_non_truth:
  assumes "process classes to from = Inr merged" and "K \<notin> set classes"
    and "get_prop (Some to) ''Common'' = Inr (Some c)" and "K \<noteq> ''__proto__''"
  shows "common_class merged K = non_truth_copy (map_of (own_props c) K)"
proof -
  from assms(1,3) obtain fc st fc' where
    pop: "populateNonTruthClasses (Some c) classes = Inr fc"
    and obs: "fold_err (observe classes) (observableDiff from to) (from, []) = Inr st"
    and cp: "fold_err (copy_updated (fst st)) (snd st) fc = Inr fc'"
    and m: "merged = JObj [(''Common'', JObj fc')]"
    by (auto simp: process_def bind_err_Inr)
  have "set (snd st) \<subseteq> set classes" using observe_fold_truth [OF obs] by simp
  then have "K \<notin> set (snd st)" using assms(2) by auto
  then have "map_of fc' K = map_of fc K" using copy_fold_other [OF cp] by simp
  then show ?thesis using populate_lookup [OF pop assms(4)] assms(2) m
    by (simp add: common_class_object)
qed

text \<open>
  A key \<open>K\<close> of \<^verbatim>\<open>desired.Common\<close> that is not a class of truth and whose value is a string or
  an object (not an array, not \<^verbatim>\<open>null\<close>) without a key \<^verbatim>\<open>__proto__\<close>: the document that
  \<^verbatim>\<open>process\<close> resolves with has that very value at \<^verbatim>\<open>Common[K]\<close>, whatever the current
  document is.
\<close>

lemma non_truth_class_pass_through:
  assumes "process classesOfTruth desired current = Inr merged"
    and "get_prop (Some desired) ''Common'' = Inr (Some c)"
    and "map_of (own_props c) K = Some v"
    and "K \<notin> set classesOfTruth" and "K \<noteq> ''__proto__''"
    and "wf_json v"
    and "realTypeOf v = ''string''
         \<or> realTypeOf v = ''object'' \<and> ''__proto__'' \<notin> fst ` set (own_props v)"
  shows "common_class merged K = Some v"
proof -
  have m: "common_class merged K = non_truth_copy (Some v)"
    using process_non_truth [OF assms(1) assms(4) assms(2) assms(5)] assms(3) by simp
  show ?thesis
  proof (cases v)
    case (JObj kvs)
    then have "distinct (map fst ([] @ kvs))" using assms(6) by simp
    then have "assign_props [] kvs = [] @ filter (\<lambda>kv. fst kv \<noteq> ''__proto__'') kvs"
      by (rule assign_props_distinct) simp
    moreover have "filter (\<lambda>kv. fst kv \<noteq> ''__proto__'') kvs = kvs"
      using assms(7) JObj by (force simp: filter_id_conv)
    ultimately show ?thesis using m JObj by (simp add: non_truth_copy_def)
  next
    case (JStr s)
    then show ?thesis using m by (simp add: non_truth_copy_def)
  qed (use assms(7) in simp_all)
qed

text \<open>
  Claim C1 does not hold of the code for an array. The value of a key that is not a class
  of truth is an array of two strings: \<^verbatim>\<open>process\<close> resolves with an object whose keys are
  the indices, which is not deep-equal to the array. In \<^verbatim>\<open>populateNonTruthClasses\<close> the test
  \<^verbatim>\<open>typeof declaration[key] === 'object'\<close> holds of an array and comes before the test
  \<^verbatim>\<open>Array.isArray\<close>, whose branch (a copy of the array) is never taken.
\<close>

theorem non_truth_array_not_passed_through:
  "process [''DNS''] (JObj [(''Common'', JObj [(''list'', JArr [JStr ''a'', JStr ''b''])])])
     (JObj [(''Common'', JObj [])])
   = Inr (JObj [(''Common'', JObj [(''list'', JObj [(''0'', JStr ''a''), (''1'', JStr ''b'')])])])
   \<and> common_class (JObj [(''Common'', JObj [(''list'', JArr [JStr ''a'', JStr ''b''])])]) ''list''
      = Some (JArr [JStr ''a'', JStr ''b''])
   \<and> common_class
        (JObj [(''Common'', JObj [(''list'', JObj [(''0'', JStr ''a''), (''1'', JStr ''b'')])])])
        ''list''
      = Some (JObj [(''0'', JStr ''a''), (''1'', JStr ''b'')])
   \<and> \<not> deep_equal (JObj [(''0'', JStr ''a''), (''1'', JStr ''b'')]) (JArr [JStr ''a'', JStr ''b''])"
  by code_simp

text \<open>
  A number that is not a class of truth is not copied at all (no test of
  \<^verbatim>\<open>populateNonTruthClasses\<close> holds of it): the key is left out of the merged document.
\<close>

lemma non_truth_number_example:
  "process [''DNS''] (JObj [(''Common'', JObj [(''mtu'', JNum 1500)])]) (JObj [(''Common'', JObj [])])
     = Inr (JObj [(''Common'', JObj [])])"
  by code_simp

text \<open>
  An own key \<^verbatim>\<open>__proto__\<close> of an object (\<^verbatim>\<open>JSON.parse\<close> makes one) is not in the copy that
  \<^verbatim>\<open>Object.assign\<close> makes.
\<close>

lemma non_truth_proto_example:
  "process [''DNS'']
     (JObj [(''Common'', JObj [(''NTP'', JObj [(''__proto__'', JNum 1), (''servers'', JArr [JStr ''x''])])])])
     (JObj [(''Common'', JObj [])])
   = Inr (JObj [(''Common'', JObj [(''NTP'', JObj [(''servers'', JArr [JStr ''x''])])])])"
  by code_simp

subsection \<open>Convergence of the classes of truth\<close>

text \<open>The differences found below a path are those found at the root, with the path in front.\<close>

lemma change_path_push [simp]: "change_path (push k c) = k # change_path c"
  by (cases c) simp_all

lemma deepDiff_push:
  "deepDiff lhs rhs (k # p) = map (push k) (deepDiff lhs rhs p)"
  "diff_elems xs ys (k # p) i = map (push k) (diff_elems xs ys p i)"
  "diff_props a b (k # p) = map (push k) (diff_props a b p)"
proof (induction lhs rhs p and xs ys p i and a b p rule: deepDiff_diff_elems_diff_props.induct)
qed (auto simp: map_concat comp_def split: option.splits)

lemma deepDiff_paths:
  "\<forall>c \<in> set (deepDiff lhs rhs p). \<exists>r. change_path c = p @ r"
  "\<forall>c \<in> set (diff_elems xs ys p i). \<exists>r. change_path c = p @ r \<and> r \<noteq> []"
  "\<forall>c \<in> set (diff_props a b p). \<exists>r. change_path c = p @ r \<and> r \<noteq> []"
proof (induction lhs rhs p and xs ys p i and a b p rule: deepDiff_diff_elems_diff_props.induct)
qed (fastforce split: option.splits if_splits)+

text \<open>
  A difference below the key \<open>k\<close> of a document changes the value at \<open>k\<close> as the difference
  without \<open>k\<close> changes that value.
\<close>

lemma holds_cases:
  assumes "holds parent k child"
  obtains (obj) kvs s where "parent = JObj kvs" "k = PKey s" "map_of kvs s = Some child"
    | (arr) xs n where "parent = JArr xs" "k = PIdx n" "n < length xs" "xs ! n = child"
  using assms by (cases "(parent, k, child)" rule: holds.cases) auto

lemma update_same: "map_of kvs s = Some v \<Longrightarrow> AList.update s v kvs = kvs"
  by (induction kvs) auto

lemma update_update: "AList.update s w (AList.update s v kvs) = AList.update s w kvs"
  by (induction kvs) auto

lemma set_elem_own:
  "map_of kvs s = Some c \<Longrightarrow> set_elem (JObj kvs) (PKey s) v = Inr (JObj (AList.update s v kvs))"
  by (simp add: put_prop_own bind_err_def)

lemma holds_get: "holds parent k child \<Longrightarrow> get_elem parent k = Inr (Some child)"
  by (erule holds_cases) simp_all

lemma holds_set_same: "holds parent k child \<Longrightarrow> set_elem parent k child = Inr parent"
  by (erule holds_cases) (auto simp: update_same put_prop_own bind_err_def)

lemma holds_set:
  assumes "holds parent k child"
  shows "\<exists>parent'. set_elem parent k v = Inr parent' \<and> holds parent' k v"
  using assms by (rule holds_cases) (auto simp: update_conv' put_prop_own bind_err_def)

lemma set_set:
  assumes "holds parent k child" and "set_elem parent k v = Inr p1"
  shows "set_elem p1 k w = set_elem parent k w"
  using assms
  by (auto elim!: holds_cases simp: update_update update_conv' put_prop_own bind_err_def)

lemma apply_last_push: "apply_last it k' (push k c) = apply_last it k' c"
  by (cases c) simp_all

lemma apply_at_push: "apply_at it p (push k c) = apply_at it p c"
  by (induction it p c rule: apply_at.induct) (simp_all add: apply_last_push cong: option.case_cong)

lemma lift_one:
  assumes "holds parent k child" and "p \<noteq> []"
  shows "apply_at parent (k # p) c = bind_err (apply_at child p c) (\<lambda>child'. set_elem parent k child')"
proof -
  obtain k' rest where p: "p = k' # rest" using assms(2) by (cases p) auto
  show ?thesis using holds_get [OF assms(1)] by (simp add: p bind_err_def)
qed

lemma lift_changes:
  assumes "holds parent k child" and "\<forall>c \<in> set cs. change_path c \<noteq> []"
  shows "apply_changes (map (push k) cs) parent
       = bind_err (apply_changes cs child) (\<lambda>child'. set_elem parent k child')"
  using assms
proof (induction cs arbitrary: parent child)
  case Nil
  then show ?case by (simp add: apply_changes_def bind_err_def holds_set_same)
next
  case (Cons c cs)
  have ne: "change_path c \<noteq> []" using Cons.prems(2) by simp
  have step: "applyChange parent (push k c)
      = bind_err (applyChange child c) (\<lambda>child'. set_elem parent k child')"
    using lift_one [OF Cons.prems(1) ne] by (simp add: applyChange_def apply_at_push)
  show ?case
  proof (cases "applyChange child c")
    case (Inl e)
    then show ?thesis using step by (simp add: apply_changes_def bind_err_def)
  next
    case (Inr child1)
    obtain parent1 where p1: "set_elem parent k child1 = Inr parent1" and h1: "holds parent1 k child1"
      using holds_set [OF Cons.prems(1)] by blast
    have "apply_changes (map (push k) cs) parent1
        = bind_err (apply_changes cs child1) (\<lambda>child'. set_elem parent1 k child')"
      using Cons.IH [OF h1] Cons.prems(2) by simp
    moreover have "set_elem parent1 k w = set_elem parent k w" for w
      using set_set [OF Cons.prems(1) p1] .
    ultimately show ?thesis using step Inr p1
      by (simp add: apply_changes_def bind_err_def)
  qed
qed

lemma apply_changes_Nil [simp]: "apply_changes [] t = Inr t"
  by (simp add: apply_changes_def)

lemma apply_changes_Cons: "apply_changes (c # cs) t = bind_err (applyChange t c) (apply_changes cs)"
  by (simp add: apply_changes_def bind_err_def fun_eq_iff split: sum.splits)

lemma apply_changes_append:
  "apply_changes (xs @ ys) t = bind_err (apply_changes xs t) (apply_changes ys)"
proof (induction xs arbitrary: t)
  case Nil
  then show ?case by (simp add: bind_err_def)
next
  case (Cons c cs)
  then show ?case by (cases "applyChange t c") (simp_all add: apply_changes_Cons bind_err_def)
qed

lemma lift_steps:
  assumes "holds parent k child"
    and "\<And>c par ch. c \<in> set cs \<Longrightarrow> holds par k ch
          \<Longrightarrow> applyChange par (g c) = bind_err (h c ch) (set_elem par k)"
  shows "apply_changes (map g cs) parent = bind_err (fold_err h cs child) (set_elem parent k)"
  using assms
proof (induction cs arbitrary: parent child)
  case Nil
  then show ?case by (simp add: bind_err_def holds_set_same)
next
  case (Cons c cs)
  have step: "applyChange parent (g c) = bind_err (h c child) (set_elem parent k)"
    using Cons.prems by simp
  show ?case
  proof (cases "h c child")
    case (Inl e)
    then show ?thesis using step by (simp add: apply_changes_Cons bind_err_def)
  next
    case (Inr child1)
    obtain parent1 where p1: "set_elem parent k child1 = Inr parent1" and h1: "holds parent1 k child1"
      using holds_set [OF Cons.prems(1)] by blast
    have "apply_changes (map g cs) parent1
        = bind_err (fold_err h cs child1) (set_elem parent1 k)"
      using Cons.IH [OF h1] Cons.prems(2) by simp
    moreover have "set_elem parent1 k = set_elem parent k"
      using set_set [OF Cons.prems(1) p1] by (simp add: fun_eq_iff)
    ultimately show ?thesis using step Inr p1
      by (simp add: apply_changes_Cons bind_err_def)
  qed
qed

text \<open>The differences of the lengths of two arrays, applied from the last index down.\<close>

lemma array_change_step:
  "holds par k ch \<Longrightarrow> applyChange par (DiffArray [k] i item)
     = bind_err (applyArrayChange ch i item) (set_elem par k)"
  by (simp add: applyChange_def holds_get bind_err_def)

lemma array_news:
  assumes "b \<le> length cur"
  shows "\<exists>cur'. fold_err (\<lambda>i arr. applyArrayChange arr i (ItemNew (ys ! i))) (rev [a..<b]) (JArr cur)
            = Inr (JArr cur')
     \<and> length cur' = length cur
     \<and> (\<forall>i < length cur. cur' ! i = (if a \<le> i \<and> i < b then ys ! i else cur ! i))"
  using assms
proof (induction b arbitrary: cur)
  case 0
  then show ?case by simp
next
  case (Suc b)
  show ?case
  proof (cases "a \<le> b")
    case False
    then show ?thesis by auto
  next
    case True
    let ?cur1 = "cur[b := ys ! b]"
    have "b \<le> length ?cur1" using Suc.prems by simp
    from Suc.IH [OF this] obtain cur' where
      f: "fold_err (\<lambda>i arr. applyArrayChange arr i (ItemNew (ys ! i))) (rev [a..<b]) (JArr ?cur1)
            = Inr (JArr cur')"
      and l: "length cur' = length ?cur1"
      and n: "\<forall>i < length ?cur1. cur' ! i = (if a \<le> i \<and> i < b then ys ! i else ?cur1 ! i)"
      by blast
    have "fold_err (\<lambda>i arr. applyArrayChange arr i (ItemNew (ys ! i))) (rev [a..<Suc b]) (JArr cur)
            = Inr (JArr cur')"
      using True Suc.prems f by simp
    moreover have "\<forall>i < length cur. cur' ! i = (if a \<le> i \<and> i < Suc b then ys ! i else cur ! i)"
      using n True Suc.prems by (auto simp: nth_list_update less_Suc_eq)
    ultimately show ?thesis using l by auto
  qed
qed

lemma array_news_all:
  assumes "length xs < length ys"
  shows "\<exists>cur'. fold_err (\<lambda>i arr. applyArrayChange arr i (ItemNew (ys ! i)))
              (rev [length xs..<length ys]) (JArr xs) = Inr (JArr cur')
     \<and> length cur' = length ys
     \<and> (\<forall>i < length ys. cur' ! i = (if i < length xs then xs ! i else ys ! i))"
proof -
  obtain m where m: "length ys = Suc m" using assms by (cases "length ys") auto
  have le: "length xs \<le> m" using assms m by simp
  let ?cur1 = "xs @ replicate (m - length xs) JNull @ [ys ! m]"
  have l1: "length ?cur1 = Suc m" using le by simp
  then have "m \<le> length ?cur1" by simp
  from array_news [OF this, of ys "length xs"] obtain cur' where
    f: "fold_err (\<lambda>i arr. applyArrayChange arr i (ItemNew (ys ! i))) (rev [length xs..<m]) (JArr ?cur1)
            = Inr (JArr cur')"
    and l: "length cur' = length ?cur1"
    and n: "\<forall>i < length ?cur1. cur' ! i = (if length xs \<le> i \<and> i < m then ys ! i else ?cur1 ! i)"
    by blast
  have "fold_err (\<lambda>i arr. applyArrayChange arr i (ItemNew (ys ! i)))
              (rev [length xs..<length ys]) (JArr xs) = Inr (JArr cur')"
    using m le f by simp
  moreover have "cur' ! i = (if i < length xs then xs ! i else ys ! i)" if "i < length ys" for i
  proof -
    have i: "i < length ?cur1" using that m l1 by simp
    show ?thesis
    proof (cases "i < length xs")
      case True
      then show ?thesis using n i by (simp add: nth_append)
    next
      case False
      show ?thesis
      proof (cases "i = m")
        case True
        have "?cur1 ! m = ys ! m"
          using le by (simp add: nth_append)
        then show ?thesis using n i True False by simp
      next
        case ne: False
        then have "i < m" using that m by simp
        then show ?thesis using n i False by simp
      qed
    qed
  qed
  ultimately show ?thesis using l l1 m by auto
qed

lemma array_dels:
  assumes "b \<le> length xs" and "a \<le> b"
  shows "fold_err (\<lambda>j arr. applyArrayChange arr j (ItemDeleted (xs ! j))) (rev [a..<b]) (JArr (take b xs))
            = Inr (JArr (take a xs))"
  using assms
proof (induction b)
  case 0
  then show ?case by simp
next
  case (Suc b)
  show ?case
  proof (cases "a = Suc b")
    case True
    then show ?thesis by simp
  next
    case False
    then have ab: "a \<le> b" using Suc.prems by simp
    have "arrayRemove (take (Suc b) xs) b = take b xs"
      using Suc.prems by (simp add: arrayRemove_def min_def)
    then show ?thesis using Suc.IH ab Suc.prems by simp
  qed
qed

lemma array_resize:
  assumes "holds parent k (JArr xs)"
  shows "\<exists>cur'. apply_changes
            (map (\<lambda>i. DiffArray [k] i (ItemNew (ys ! i))) (rev [length xs..<length ys])
             @ map (\<lambda>j. DiffArray [k] j (ItemDeleted (xs ! j))) (rev [length ys..<length xs])) parent
          = set_elem parent k (JArr cur')
     \<and> length cur' = length ys
     \<and> (\<forall>i < length ys. cur' ! i = (if i < length xs then xs ! i else ys ! i))"
proof -
  consider (less) "length xs < length ys" | (eq) "length xs = length ys" | (more) "length ys < length xs"
    by linarith
  then show ?thesis
  proof cases
    case less
    from array_news_all [OF less] obtain cur' where
      f: "fold_err (\<lambda>i arr. applyArrayChange arr i (ItemNew (ys ! i)))
              (rev [length xs..<length ys]) (JArr xs) = Inr (JArr cur')"
      and r: "length cur' = length ys"
        "\<forall>i < length ys. cur' ! i = (if i < length xs then xs ! i else ys ! i)"
      by blast
    have "apply_changes (map (\<lambda>i. DiffArray [k] i (ItemNew (ys ! i))) (rev [length xs..<length ys])) parent
        = bind_err (fold_err (\<lambda>i arr. applyArrayChange arr i (ItemNew (ys ! i)))
              (rev [length xs..<length ys]) (JArr xs)) (set_elem parent k)"
      by (rule lift_steps [OF assms]) (rule array_change_step)
    then show ?thesis using less f r by (auto simp: bind_err_def)
  next
    case eq
    then show ?thesis using holds_set_same [OF assms] by (intro exI [of _ xs]) simp
  next
    case more
    have f: "fold_err (\<lambda>j arr. applyArrayChange arr j (ItemDeleted (xs ! j)))
              (rev [length ys..<length xs]) (JArr (take (length xs) xs)) = Inr (JArr (take (length ys) xs))"
      by (rule array_dels) (use more in simp_all)
    have "apply_changes (map (\<lambda>j. DiffArray [k] j (ItemDeleted (xs ! j))) (rev [length ys..<length xs])) parent
        = bind_err (fold_err (\<lambda>j arr. applyArrayChange arr j (ItemDeleted (xs ! j)))
              (rev [length ys..<length xs]) (JArr xs)) (set_elem parent k)"
      by (rule lift_steps [OF assms]) (rule array_change_step)
    then show ?thesis using more f by (auto simp: bind_err_def)
  qed
qed

text \<open>Deep equality.\<close>

lemma deep_equal_list_iff:
  "deep_equal_list xs ys
     \<longleftrightarrow> length xs = length ys \<and> (\<forall>i < length xs. deep_equal (xs ! i) (ys ! i))"
proof (induction xs arbitrary: ys)
  case Nil
  then show ?case by (cases ys) simp_all
next
  case (Cons x xs)
  then show ?case by (cases ys) (auto simp: less_Suc_eq_0_disj)
qed

lemma deep_equal_props_iff:
  "deep_equal_props a b
     \<longleftrightarrow> (\<forall>kv \<in> set a. \<exists>w. map_of b (fst kv) = Some w \<and> deep_equal (snd kv) w)"
  by (induction a) (auto split: option.splits)

lemma deep_equal_atom:
  assumes "\<not> (realTypeOf x = ''array'' \<and> realTypeOf y = ''array'')"
    and "\<not> (realTypeOf x = ''object'' \<and> realTypeOf y = ''object'')"
  shows "deep_equal x y = (x = y)"
  using assms by (cases x; cases y) simp_all

lemma deepDiff_atom:
  assumes "\<not> (realTypeOf x = ''array'' \<and> realTypeOf y = ''array'')"
    and "\<not> (realTypeOf x = ''object'' \<and> realTypeOf y = ''object'')"
  shows "deepDiff x y p = (if x \<noteq> y then [DiffEdit p x y] else [])"
  using assms by (cases x; cases y) auto

lemma deep_equal_refl: "wf_json x \<Longrightarrow> deep_equal x x"
proof (induction x)
  case (JArr xs)
  then show ?case by (simp add: deep_equal_list_iff)
next
  case (JObj kvs)
  have "\<exists>w. map_of kvs (fst kv) = Some w \<and> deep_equal (snd kv) w" if "kv \<in> set kvs" for kv
  proof -
    have "map_of kvs (fst kv) = Some (snd kv)" using that JObj.prems by simp
    moreover have "deep_equal (snd kv) (snd kv)"
      using JObj.IH [of kv "snd kv"] that JObj.prems by (cases kv) auto
    ultimately show ?thesis by blast
  qed
  then show ?case by (simp add: deep_equal_props_iff)
qed simp_all

lemma deep_equal_objI:
  assumes "distinct (map fst a)"
    and "\<And>s. map_of b s = None \<Longrightarrow> map_of a s = None"
    and "\<And>s w. map_of b s = Some w \<Longrightarrow> \<exists>v. map_of a s = Some v \<and> deep_equal v w"
  shows "deep_equal (JObj a) (JObj b)"
proof -
  have "\<exists>w. map_of b (fst kv) = Some w \<and> deep_equal (snd kv) w" if "kv \<in> set a" for kv
  proof -
    have m: "map_of a (fst kv) = Some (snd kv)" using that assms(1) by simp
    then obtain w where w: "map_of b (fst kv) = Some w" using assms(2) [of "fst kv"]
      by (cases "map_of b (fst kv)") auto
    from assms(3) [OF w] m have "deep_equal (snd kv) w" by auto
    with w show ?thesis by blast
  qed
  moreover have "fst ` set a = fst ` set b"
  proof -
    have "map_of a s = None \<longleftrightarrow> map_of b s = None" for s
      using assms(2) [of s] assms(3) [of s] by (cases "map_of b s") auto
    then have "s \<notin> fst ` set a \<longleftrightarrow> s \<notin> fst ` set b" for s
      unfolding map_of_eq_None_iff .
    then show ?thesis by blast
  qed
  ultimately show ?thesis by (simp add: deep_equal_props_iff)
qed

text \<open>The differences of the elements of two arrays and of the values of two objects.\<close>

lemma diff_elems_converges:
  assumes IH: "\<And>x y par k. x \<in> set xs \<Longrightarrow> y \<in> set ys \<Longrightarrow> holds par k x
        \<Longrightarrow> \<exists>x'. apply_changes (deepDiff x y [k]) par = set_elem par k x' \<and> deep_equal x' y"
    and "\<forall>j < min (length xs) (length ys). i0 + j < length cur \<and> cur ! (i0 + j) = xs ! j"
  shows "\<exists>cur'. apply_changes (diff_elems xs ys [] i0) (JArr cur) = Inr (JArr cur')
     \<and> length cur' = length cur
     \<and> (\<forall>i < length cur.
          if i0 \<le> i \<and> i < i0 + min (length xs) (length ys)
          then deep_equal (cur' ! i) (ys ! (i - i0)) else cur' ! i = cur ! i)"
  using assms
proof (induction xs arbitrary: ys i0 cur)
  case Nil
  then show ?case by auto
next
  case (Cons x xs)
  show ?case
  proof (cases ys)
    case Nil
    then show ?thesis by auto
  next
    case ys: (Cons y ys')
    have pre: "\<forall>j < min (length xs) (length ys'). Suc i0 + j < length cur \<and> cur ! (Suc i0 + j) = xs ! j"
    proof (intro allI impI)
      fix j assume "j < min (length xs) (length ys')"
      then have "Suc j < min (length (x # xs)) (length ys)" using ys by simp
      then show "Suc i0 + j < length cur \<and> cur ! (Suc i0 + j) = xs ! j"
        using Cons.prems(2) by fastforce
    qed
    have ih: "\<And>x' y' par k. x' \<in> set xs \<Longrightarrow> y' \<in> set ys' \<Longrightarrow> holds par k x'
        \<Longrightarrow> \<exists>x''. apply_changes (deepDiff x' y' [k]) par = set_elem par k x'' \<and> deep_equal x'' y'"
      using Cons.prems(1) ys by simp
    from Cons.IH [OF ih pre] obtain cur1 where
      t: "apply_changes (diff_elems xs ys' [] (Suc i0)) (JArr cur) = Inr (JArr cur1)"
      and l1: "length cur1 = length cur"
      and n1: "\<forall>i < length cur.
          if Suc i0 \<le> i \<and> i < Suc i0 + min (length xs) (length ys')
          then deep_equal (cur1 ! i) (ys' ! (i - Suc i0)) else cur1 ! i = cur ! i"
      by blast
    have i0: "i0 < length cur" "cur ! i0 = x"
      using Cons.prems(2) ys by (auto dest: spec [of _ 0])
    then have "cur1 ! i0 = x" using n1 by (auto dest: spec [of _ i0])
    then have h: "holds (JArr cur1) (PIdx i0) x" using i0 l1 by simp
    from Cons.prems(1) [OF _ _ h, of y] ys obtain x' where
      hd: "apply_changes (deepDiff x y [PIdx i0]) (JArr cur1) = set_elem (JArr cur1) (PIdx i0) x'"
      and de: "deep_equal x' y"
      by auto
    let ?cur' = "cur1[i0 := x']"
    have "apply_changes (diff_elems (x # xs) ys [] i0) (JArr cur) = Inr (JArr ?cur')"
      using ys t hd i0 l1 by (simp add: apply_changes_append bind_err_def)
    moreover have "length ?cur' = length cur" using l1 by simp
    moreover have "if i0 \<le> i \<and> i < i0 + min (length (x # xs)) (length ys)
          then deep_equal (?cur' ! i) (ys ! (i - i0)) else ?cur' ! i = cur ! i"
      if "i < length cur" for i
    proof (cases "i = i0")
      case True
      then show ?thesis using de ys that l1 by simp
    next
      case False
      have "?cur' ! i = cur1 ! i" using False by simp
      moreover have "i0 \<le> i \<and> i < i0 + min (length (x # xs)) (length ys)
          \<longleftrightarrow> Suc i0 \<le> i \<and> i < Suc i0 + min (length xs) (length ys')"
        using False ys by auto
      moreover have "Suc i0 \<le> i \<Longrightarrow> ys ! (i - i0) = ys' ! (i - Suc i0)"
        using ys by (simp add: Suc_diff_le)
      ultimately show ?thesis using n1 that by (auto simp del: nth_list_update_neq)
    qed
    ultimately show ?thesis by blast
  qed
qed

lemma deleted_change_step:
  "applyChange (JObj cur) (DiffDeleted [PKey s] v) = Inr (JObj (AList.delete s cur))"
  by (simp add: applyChange_def)

lemma diff_props_converges:
  assumes IH: "\<And>s v w par k. (s, v) \<in> set a \<Longrightarrow> map_of b s = Some w \<Longrightarrow> holds par k v
        \<Longrightarrow> \<exists>v'. apply_changes (deepDiff v w [k]) par = set_elem par k v' \<and> deep_equal v' w"
    and "distinct (map fst a)"
    and "\<forall>kv \<in> set a. map_of cur (fst kv) = Some (snd kv)"
    and "distinct (map fst cur)"
  shows "\<exists>cur'. apply_changes (diff_props a b []) (JObj cur) = Inr (JObj cur')
     \<and> distinct (map fst cur')
     \<and> (\<forall>s. s \<notin> fst ` set a \<longrightarrow> map_of cur' s = map_of cur s)
     \<and> (\<forall>s \<in> fst ` set a.
          case map_of b s of
            None \<Rightarrow> map_of cur' s = None
          | Some w \<Rightarrow> \<exists>v'. map_of cur' s = Some v' \<and> deep_equal v' w)"
  using assms
proof (induction a arbitrary: cur)
  case Nil
  then show ?case by simp
next
  case (Cons kv a)
  obtain s v where kv: "kv = (s, v)" by (cases kv)
  have s_fresh: "s \<notin> fst ` set a" using Cons.prems(2) kv by auto
  have hv: "holds (JObj cur) (PKey s) v" using Cons.prems(3) kv by simp
  have "\<exists>cur1. apply_changes
          (case map_of b s of Some w \<Rightarrow> deepDiff v w [PKey s] | None \<Rightarrow> [DiffDeleted [PKey s] v])
          (JObj cur) = Inr (JObj cur1)
      \<and> distinct (map fst cur1)
      \<and> (\<forall>s'. s' \<noteq> s \<longrightarrow> map_of cur1 s' = map_of cur s')
      \<and> (case map_of b s of
            None \<Rightarrow> map_of cur1 s = None
          | Some w \<Rightarrow> \<exists>v'. map_of cur1 s = Some v' \<and> deep_equal v' w)"
  proof (cases "map_of b s")
    case None
    have "map_of (AList.delete s cur) s = None" by (simp add: delete_conv')
    moreover have "\<forall>s'. s' \<noteq> s \<longrightarrow> map_of (AList.delete s cur) s' = map_of cur s'"
      by (simp add: delete_conv')
    moreover have "distinct (map fst (AList.delete s cur))"
      using Cons.prems(4) by (simp add: distinct_delete)
    ultimately show ?thesis using None
      by (simp add: apply_changes_Cons deleted_change_step bind_err_def)
  next
    case (Some w)
    from Cons.prems(1) [OF _ Some hv] kv obtain v' where
      ap: "apply_changes (deepDiff v w [PKey s]) (JObj cur) = set_elem (JObj cur) (PKey s) v'"
      and de: "deep_equal v' w"
      by auto
    have "map_of cur s = Some v" using hv by simp
    then have se: "set_elem (JObj cur) (PKey s) v' = Inr (JObj (AList.update s v' cur))"
      by (rule set_elem_own)
    have "map_of (AList.update s v' cur) s = Some v'" by (simp add: update_conv')
    moreover have "\<forall>s'. s' \<noteq> s \<longrightarrow> map_of (AList.update s v' cur) s' = map_of cur s'"
      by (simp add: update_conv')
    moreover have "distinct (map fst (AList.update s v' cur))"
      using Cons.prems(4) by (simp add: distinct_update)
    ultimately show ?thesis using Some ap de se by (simp del: set_elem.simps)
  qed
  then obtain cur1 where
    hd: "apply_changes
          (case map_of b s of Some w \<Rightarrow> deepDiff v w [PKey s] | None \<Rightarrow> [DiffDeleted [PKey s] v])
          (JObj cur) = Inr (JObj cur1)"
    and d1: "distinct (map fst cur1)"
    and f1: "\<forall>s'. s' \<noteq> s \<longrightarrow> map_of cur1 s' = map_of cur s'"
    and c1: "case map_of b s of
            None \<Rightarrow> map_of cur1 s = None
          | Some w \<Rightarrow> \<exists>v'. map_of cur1 s = Some v' \<and> deep_equal v' w"
    by blast
  have ih: "\<And>s v w par k. (s, v) \<in> set a \<Longrightarrow> map_of b s = Some w \<Longrightarrow> holds par k v
        \<Longrightarrow> \<exists>v'. apply_changes (deepDiff v w [k]) par = set_elem par k v' \<and> deep_equal v' w"
  proof -
    fix s v w par k
    assume "(s, v) \<in> set a" and w: "map_of b s = Some w" and h: "holds par k v"
    then have "(s, v) \<in> set (kv # a)" by simp
    then show "\<exists>v'. apply_changes (deepDiff v w [k]) par = set_elem par k v' \<and> deep_equal v' w"
      using w h by (rule Cons.prems(1))
  qed
  have da: "distinct (map fst a)" using Cons.prems(2) by simp
  have still: "\<forall>kv \<in> set a. map_of cur1 (fst kv) = Some (snd kv)"
  proof
    fix kv' assume m: "kv' \<in> set a"
    then have "fst kv' \<noteq> s" using s_fresh by auto
    then show "map_of cur1 (fst kv') = Some (snd kv')" using f1 Cons.prems(3) m by simp
  qed
  have "\<exists>cur'. apply_changes (diff_props a b []) (JObj cur1) = Inr (JObj cur')
     \<and> distinct (map fst cur')
     \<and> (\<forall>s. s \<notin> fst ` set a \<longrightarrow> map_of cur' s = map_of cur1 s)
     \<and> (\<forall>s \<in> fst ` set a.
          case map_of b s of
            None \<Rightarrow> map_of cur' s = None
          | Some w \<Rightarrow> \<exists>v'. map_of cur' s = Some v' \<and> deep_equal v' w)"
    apply (rule Cons.IH)
       apply (erule (2) ih)
      apply (rule da)
     apply (rule still)
    apply (rule d1)
    done
  then obtain cur' where
    tl: "apply_changes (diff_props a b []) (JObj cur1) = Inr (JObj cur')"
    and d': "distinct (map fst cur')"
    and f': "\<forall>s. s \<notin> fst ` set a \<longrightarrow> map_of cur' s = map_of cur1 s"
    and c': "\<forall>s \<in> fst ` set a.
          case map_of b s of
            None \<Rightarrow> map_of cur' s = None
          | Some w \<Rightarrow> \<exists>v'. map_of cur' s = Some v' \<and> deep_equal v' w"
    by blast
  have "apply_changes (diff_props (kv # a) b []) (JObj cur) = Inr (JObj cur')"
    using hd tl kv
    by (cases "map_of b s")
      (simp_all add: apply_changes_append apply_changes_Cons deleted_change_step bind_err_def)
  moreover have "\<forall>s'. s' \<notin> fst ` set (kv # a) \<longrightarrow> map_of cur' s' = map_of cur s'"
    using f' f1 kv by auto
  moreover have "\<forall>s' \<in> fst ` set (kv # a).
          case map_of b s' of
            None \<Rightarrow> map_of cur' s' = None
          | Some w \<Rightarrow> \<exists>v'. map_of cur' s' = Some v' \<and> deep_equal v' w"
  proof
    fix s' assume m: "s' \<in> fst ` set (kv # a)"
    show "case map_of b s' of
            None \<Rightarrow> map_of cur' s' = None
          | Some w \<Rightarrow> \<exists>v'. map_of cur' s' = Some v' \<and> deep_equal v' w"
    proof (cases "s' = s")
      case True
      then have "map_of cur' s' = map_of cur1 s" using f' s_fresh by simp
      then show ?thesis using c1 True by (simp split: option.splits)
    next
      case False
      then have "s' \<in> fst ` set a" using m kv by auto
      then show ?thesis using c' by blast
    qed
  qed
  ultimately show ?case using d' by blast
qed

lemma new_keys_applied:
  "\<forall>kw \<in> set ns. fst kw \<noteq> ''__proto__''
    \<Longrightarrow> apply_changes (map (\<lambda>kw. DiffNew [PKey (fst kw)] (snd kw)) ns) (JObj cur)
     = Inr (JObj (fold (\<lambda>kw. AList.update (fst kw) (snd kw)) ns cur))"
  by (induction ns arbitrary: cur)
    (simp_all add: apply_changes_Cons applyChange_def bind_err_def put_prop_plain)

lemma fold_update_distinct:
  "distinct (map fst cur) \<Longrightarrow> distinct (map fst (fold (\<lambda>kw. AList.update (fst kw) (snd kw)) ns cur))"
  by (induction ns arbitrary: cur) (simp_all add: distinct_update)

lemma fold_update_lookup:
  "distinct (map fst ns) \<Longrightarrow>
   map_of (fold (\<lambda>kw. AList.update (fst kw) (snd kw)) ns cur) s
     = (case map_of ns s of Some w \<Rightarrow> Some w | None \<Rightarrow> map_of cur s)"
proof (induction ns arbitrary: cur)
  case Nil
  then show ?case by simp
next
  case (Cons kw ns)
  have "fst kw \<notin> fst ` set ns" using Cons.prems by auto
  then have "map_of ns (fst kw) = None" by (simp add: map_of_eq_None_iff)
  then show ?case using Cons by (auto simp: update_conv' split: option.splits)
qed

lemma map_of_filter_key:
  "map_of (filter (\<lambda>kw. Q (fst kw)) b) s = (if Q s then map_of b s else None)"
  by (induction b) auto

text \<open>
  The differences between \<open>lhs\<close> and \<open>rhs\<close>, applied to a document that has \<open>lhs\<close> at \<open>k\<close>, all
  succeed and leave at \<open>k\<close> a value deep-equal to \<open>rhs\<close>.
\<close>

lemma deepDiff_converges_atom:
  assumes "\<not> (realTypeOf lhs = ''array'' \<and> realTypeOf rhs = ''array'')"
    and "\<not> (realTypeOf lhs = ''object'' \<and> realTypeOf rhs = ''object'')"
    and "wf_json rhs" and "holds parent k lhs"
  shows "\<exists>lhs'. apply_changes (deepDiff lhs rhs [k]) parent = set_elem parent k lhs'
           \<and> deep_equal lhs' rhs"
proof (cases "lhs = rhs")
  case True
  have "deepDiff lhs rhs [k] = []" using deepDiff_atom [OF assms(1,2)] True by simp
  moreover have "deep_equal lhs rhs" using True deep_equal_refl [OF assms(3)] by simp
  ultimately show ?thesis using holds_set_same [OF assms(4)] by (intro exI [of _ lhs]) simp
next
  case False
  have d: "deepDiff lhs rhs [k] = [DiffEdit [k] lhs rhs]"
    using deepDiff_atom [OF assms(1,2)] False by simp
  obtain parent' where "set_elem parent k rhs = Inr parent'"
    using holds_set [OF assms(4)] by blast
  then have "apply_changes (deepDiff lhs rhs [k]) parent = set_elem parent k rhs"
    using d by (simp add: apply_changes_Cons applyChange_def bind_err_def)
  then show ?thesis using deep_equal_refl [OF assms(3)] by blast
qed

lemma deepDiff_converges_array:
  assumes IH: "\<And>x y par k. x \<in> set xs \<Longrightarrow> y \<in> set ys \<Longrightarrow> holds par k x
        \<Longrightarrow> \<exists>x'. apply_changes (deepDiff x y [k]) par = set_elem par k x' \<and> deep_equal x' y"
    and "wf_json (JArr ys)" and "holds parent k (JArr xs)"
  shows "\<exists>lhs'. apply_changes (deepDiff (JArr xs) (JArr ys) [k]) parent = set_elem parent k lhs'
           \<and> deep_equal lhs' (JArr ys)"
proof -
  let ?R = "map (\<lambda>i. DiffArray [k] i (ItemNew (ys ! i))) (rev [length xs..<length ys])
             @ map (\<lambda>j. DiffArray [k] j (ItemDeleted (xs ! j))) (rev [length ys..<length xs])"
  let ?E = "diff_elems xs ys [] 0"
  have split: "deepDiff (JArr xs) (JArr ys) [k] = ?R @ map (push k) ?E"
    using deepDiff_push(2) [of xs ys k "[]" 0] by simp
  from array_resize [OF assms(3), of ys] obtain cur1 where
    r: "apply_changes ?R parent = set_elem parent k (JArr cur1)"
    and l1: "length cur1 = length ys"
    and n1: "\<forall>i < length ys. cur1 ! i = (if i < length xs then xs ! i else ys ! i)"
    by blast
  obtain parent1 where p1: "set_elem parent k (JArr cur1) = Inr parent1"
    and h1: "holds parent1 k (JArr cur1)"
    using holds_set [OF assms(3)] by blast
  have pre: "\<forall>j < min (length xs) (length ys). 0 + j < length cur1 \<and> cur1 ! (0 + j) = xs ! j"
    using l1 n1 by simp
  have "\<exists>cur2. apply_changes ?E (JArr cur1) = Inr (JArr cur2)
     \<and> length cur2 = length cur1
     \<and> (\<forall>i < length cur1.
          if 0 \<le> i \<and> i < 0 + min (length xs) (length ys)
          then deep_equal (cur2 ! i) (ys ! (i - 0)) else cur2 ! i = cur1 ! i)"
    apply (rule diff_elems_converges [of xs ys 0 cur1])
     apply (erule (2) IH)
    apply (rule pre)
    done
  then obtain cur2 where
    e: "apply_changes ?E (JArr cur1) = Inr (JArr cur2)"
    and l2: "length cur2 = length cur1"
    and n2: "\<forall>i < length cur1.
          if 0 \<le> i \<and> i < 0 + min (length xs) (length ys)
          then deep_equal (cur2 ! i) (ys ! (i - 0)) else cur2 ! i = cur1 ! i"
    by blast
  have ne: "\<forall>c \<in> set ?E. change_path c \<noteq> []"
    using deepDiff_paths(2) [of xs ys "[]" 0] by auto
  have "apply_changes (map (push k) ?E) parent1
      = bind_err (apply_changes ?E (JArr cur1)) (\<lambda>child'. set_elem parent1 k child')"
    by (rule lift_changes [OF h1 ne])
  also have "\<dots> = set_elem parent1 k (JArr cur2)" using e by (simp add: bind_err_def)
  also have "\<dots> = set_elem parent k (JArr cur2)" by (rule set_set [OF assms(3) p1])
  finally have tail: "apply_changes (map (push k) ?E) parent1 = set_elem parent k (JArr cur2)" .
  have "apply_changes (deepDiff (JArr xs) (JArr ys) [k]) parent
      = bind_err (apply_changes ?R parent) (apply_changes (map (push k) ?E))"
    unfolding split by (rule apply_changes_append)
  also have "\<dots> = apply_changes (map (push k) ?E) parent1"
    unfolding r p1 by (simp add: bind_err_def)
  finally have "apply_changes (deepDiff (JArr xs) (JArr ys) [k]) parent = set_elem parent k (JArr cur2)"
    using tail by simp
  moreover have "deep_equal (cur2 ! i) (ys ! i)" if "i < length ys" for i
  proof (cases "i < min (length xs) (length ys)")
    case True
    then show ?thesis using n2 that l1 by (auto dest: spec [of _ i])
  next
    case False
    then have "cur2 ! i = cur1 ! i" using n2 that l1 by (auto dest: spec [of _ i])
    moreover have "cur1 ! i = ys ! i" using n1 that False by auto
    moreover have "wf_json (ys ! i)" using assms(2) that by simp
    ultimately show ?thesis using deep_equal_refl by simp
  qed
  then have "deep_equal (JArr cur2) (JArr ys)" using l1 l2 by (simp add: deep_equal_list_iff)
  ultimately show ?thesis by blast
qed

lemma deepDiff_converges_object:
  assumes IH: "\<And>s v w par k. (s, v) \<in> set a \<Longrightarrow> map_of b s = Some w \<Longrightarrow> holds par k v
        \<Longrightarrow> \<exists>v'. apply_changes (deepDiff v w [k]) par = set_elem par k v' \<and> deep_equal v' w"
    and "wf_json (JObj a)" and "wf_json (JObj b)" and "plain_keys (JObj b)"
    and "holds parent k (JObj a)"
  shows "\<exists>lhs'. apply_changes (deepDiff (JObj a) (JObj b) [k]) parent = set_elem parent k lhs'
           \<and> deep_equal lhs' (JObj b)"
proof -
  let ?ns = "filter (\<lambda>kw. fst kw \<notin> fst ` set a \<and> fst kw \<noteq> []) b"
  let ?N = "map (\<lambda>kw. DiffNew [PKey (fst kw)] (snd kw)) ?ns"
  let ?D = "diff_props a b [] @ ?N"
  have da: "distinct (map fst a)" and db: "distinct (map fst b)" using assms(2,3) by simp_all
  have split: "deepDiff (JObj a) (JObj b) [k] = map (push k) ?D"
    using deepDiff_push(1) [of "JObj a" "JObj b" k "[]"] by simp
  have own: "\<forall>kv \<in> set a. map_of a (fst kv) = Some (snd kv)" using da by simp
  have "\<exists>cur1. apply_changes (diff_props a b []) (JObj a) = Inr (JObj cur1)
     \<and> distinct (map fst cur1)
     \<and> (\<forall>s. s \<notin> fst ` set a \<longrightarrow> map_of cur1 s = map_of a s)
     \<and> (\<forall>s \<in> fst ` set a.
          case map_of b s of
            None \<Rightarrow> map_of cur1 s = None
          | Some w \<Rightarrow> \<exists>v'. map_of cur1 s = Some v' \<and> deep_equal v' w)"
    apply (rule diff_props_converges [of a b a])
       apply (erule (2) IH)
      apply (rule da)
     apply (rule own)
    apply (rule da)
    done
  then obtain cur1 where
    p: "apply_changes (diff_props a b []) (JObj a) = Inr (JObj cur1)"
    and d1: "distinct (map fst cur1)"
    and f1: "\<forall>s. s \<notin> fst ` set a \<longrightarrow> map_of cur1 s = map_of a s"
    and c1: "\<forall>s \<in> fst ` set a.
          case map_of b s of
            None \<Rightarrow> map_of cur1 s = None
          | Some w \<Rightarrow> \<exists>v'. map_of cur1 s = Some v' \<and> deep_equal v' w"
    by blast
  let ?fin = "fold (\<lambda>kw. AList.update (fst kw) (snd kw)) ?ns cur1"
  have dn: "distinct (map fst ?ns)" using db by (simp add: distinct_map_filter)
  have look_ns: "map_of ?ns s = (if s \<notin> fst ` set a \<and> s \<noteq> [] then map_of b s else None)" for s
    by (rule map_of_filter_key [of "\<lambda>s. s \<notin> fst ` set a \<and> s \<noteq> []" b s])
  have look: "map_of ?fin s = (case map_of ?ns s of Some w \<Rightarrow> Some w | None \<Rightarrow> map_of cur1 s)" for s
    by (rule fold_update_lookup [OF dn])
  have fin: "map_of ?fin s
      = (if s \<notin> fst ` set a \<and> s \<noteq> [] \<and> map_of b s \<noteq> None then map_of b s else map_of cur1 s)" for s
    unfolding look look_ns by (simp split: option.splits)
  have dfin: "distinct (map fst ?fin)" by (rule fold_update_distinct [OF d1])
  have "\<forall>kw \<in> set ?ns. fst kw \<noteq> ''__proto__''" using assms(4) by simp
  then have "apply_changes ?N (JObj cur1) = Inr (JObj ?fin)" by (rule new_keys_applied)
  then have all: "apply_changes ?D (JObj a) = Inr (JObj ?fin)"
    using p by (simp add: apply_changes_append bind_err_def)
  have ne: "\<forall>c \<in> set ?D. change_path c \<noteq> []"
    using deepDiff_paths(3) [of a b "[]"] by auto
  have "apply_changes (map (push k) ?D) parent
      = bind_err (apply_changes ?D (JObj a)) (\<lambda>child'. set_elem parent k child')"
    by (rule lift_changes [OF assms(5) ne])
  also have "\<dots> = set_elem parent k (JObj ?fin)"
    unfolding all by (simp add: bind_err_def)
  finally have ap: "apply_changes (deepDiff (JObj a) (JObj b) [k]) parent = set_elem parent k (JObj ?fin)"
    unfolding split .
  have nek: "s \<noteq> []" if "map_of b s = Some w" for s w
    using assms(4) map_of_SomeD [OF that] by auto
  have none: "map_of ?fin s = None" if "map_of b s = None" for s
  proof (cases "s \<in> fst ` set a")
    case True
    then have "map_of cur1 s = None" using c1 that by (auto dest: bspec [of _ _ s])
    then show ?thesis using that by (simp add: fin)
  next
    case False
    then have "map_of a s = None" by (simp add: map_of_eq_None_iff)
    then have "map_of cur1 s = None" using f1 False by simp
    then show ?thesis using that by (simp add: fin)
  qed
  have some: "\<exists>v. map_of ?fin s = Some v \<and> deep_equal v w" if "map_of b s = Some w" for s w
  proof (cases "s \<in> fst ` set a")
    case True
    then have "\<exists>v'. map_of cur1 s = Some v' \<and> deep_equal v' w"
      using c1 that by (auto dest: bspec [of _ _ s])
    then show ?thesis using True by (simp add: fin)
  next
    case False
    have "wf_json w" using assms(3) map_of_SomeD [OF that] by auto
    then have "deep_equal w w" by (rule deep_equal_refl)
    then show ?thesis using False that nek [OF that] by (simp add: fin)
  qed
  have "deep_equal (JObj ?fin) (JObj b)"
    by (rule deep_equal_objI [OF dfin none some])
  with ap show ?thesis by blast
qed

lemma deepDiff_converges:
  assumes "wf_json lhs" and "wf_json rhs" and "plain_keys rhs" and "holds parent k lhs"
  shows "\<exists>lhs'. apply_changes (deepDiff lhs rhs [k]) parent = set_elem parent k lhs'
           \<and> deep_equal lhs' rhs"
  using assms
proof (induction lhs arbitrary: rhs parent k)
  case (JArr xs)
  show ?case
  proof (cases rhs)
    case (JArr ys)
    have "\<exists>x'. apply_changes (deepDiff x y [k']) par = set_elem par k' x' \<and> deep_equal x' y"
      if "x \<in> set xs" "y \<in> set ys" "holds par k' x" for x y par k'
      using JArr.IH [OF that(1) _ _ _ that(3), of y] JArr.prems that \<open>rhs = JArr ys\<close> by simp
    then show ?thesis
      using deepDiff_converges_array [of xs ys parent k] JArr.prems \<open>rhs = JArr ys\<close> by blast
  qed (rule deepDiff_converges_atom; use JArr.prems in simp)+
next
  case (JObj a)
  show ?case
  proof (cases rhs)
    case (JObj b)
    have "\<exists>v'. apply_changes (deepDiff v w [k']) par = set_elem par k' v' \<and> deep_equal v' w"
      if "(s, v) \<in> set a" "map_of b s = Some w" "holds par k' v" for s v w par k'
    proof -
      have "wf_json v" using \<open>wf_json (JObj a)\<close> that(1) by auto
      moreover have "wf_json w" "plain_keys w"
        using JObj.prems(2,3) \<open>rhs = JObj b\<close> map_of_SomeD [OF that(2)] by auto
      ultimately show ?thesis
        using JObj.IH [of "(s, v)" v w par k'] that by simp
    qed
    then show ?thesis
      using deepDiff_converges_object [of a b parent k] JObj.prems \<open>rhs = JObj b\<close> by blast
  qed (rule deepDiff_converges_atom; use JObj.prems in simp)+
qed (rule deepDiff_converges_atom; simp)+

text \<open>Two documents have no difference exactly when they are deep-equal.\<close>

lemma deep_equal_list_length: "deep_equal_list xs ys \<Longrightarrow> length xs = length ys"
  by (simp add: deep_equal_list_iff)

lemma deep_equal_no_diff:
  "deep_equal x y \<Longrightarrow> deepDiff x y p = []"
  "deep_equal_list xs ys \<Longrightarrow> diff_elems xs ys q i = []"
  "deep_equal_props a b \<Longrightarrow> diff_props a b r = []"
proof (induction x y and xs ys and a b arbitrary: p and q i and r
    rule: deep_equal_deep_equal_list_deep_equal_props.induct)
qed (auto simp: filter_empty_conv dest: deep_equal_list_length split: option.splits)

lemma deepDiff_empty_path: "deepDiff x y p = [] \<longleftrightarrow> deepDiff x y [] = []"
  by (induction p) (simp_all add: deepDiff_push(1))

lemma no_diff_deep_equal:
  assumes "wf_json x" and "wf_json y" and "plain_keys y" and "deepDiff x y p = []"
  shows "deep_equal x y"
proof -
  have h: "holds (JObj [(''x'', x)]) (PKey ''x'') x" by simp
  from deepDiff_converges [OF assms(1-3) h] obtain x' where
    ap: "apply_changes (deepDiff x y [PKey ''x'']) (JObj [(''x'', x)])
            = set_elem (JObj [(''x'', x)]) (PKey ''x'') x'"
    and de: "deep_equal x' y"
    by blast
  have "deepDiff x y [PKey ''x''] = []"
    using assms(4) deepDiff_empty_path [of x y p] deepDiff_empty_path [of x y "[PKey ''x'']"] by simp
  then have "x' = x" using ap by (simp add: put_prop_def bind_err_def)
  then show ?thesis using de by simp
qed

text \<open>
  The observer applies the differences that pass its test, in their order, and marks the
  second element of their paths.
\<close>

lemma observe_fold_applied:
  "fold_err (observe classes) cs (doc, ups) = Inr (doc', ups')
    \<Longrightarrow> apply_changes (filter (applied classes) cs) doc = Inr doc'
      \<and> set ups' = set ups \<union> {k. \<exists>c \<in> set cs. applied classes c \<and> path1 c = Some k}"
proof (induction cs arbitrary: doc ups)
  case Nil
  then show ?case by simp
next
  case (Cons c cs)
  obtain doc1 ups1 where step: "observe classes c (doc, ups) = Inr (doc1, ups1)"
    and rest: "fold_err (observe classes) cs (doc1, ups1) = Inr (doc', ups')"
    using Cons.prems by (auto split: sum.splits)
  note ih = Cons.IH [OF rest]
  show ?case
  proof (cases "applied classes c")
    case False
    then have "doc1 = doc" "ups1 = ups"
      using step by (auto simp: observe_def applied_def split: option.splits if_splits)
    then show ?thesis using ih False by auto
  next
    case True
    then obtain k where k: "path1 c = Some k" "k \<in> set classes"
      by (auto simp: applied_def split: option.splits)
    then have ap: "applyChange doc c = Inr doc1" and u: "set ups1 = insert k (set ups)"
      using step by (auto simp: observe_def bind_err_Inr split: if_splits)
    have "apply_changes (filter (applied classes) (c # cs)) doc = Inr doc'"
      using True ap ih by (simp add: apply_changes_Cons bind_err_def)
    moreover have "set ups' = set ups \<union> {k. \<exists>c' \<in> set (c # cs). applied classes c' \<and> path1 c' = Some k}"
      using ih u k True by auto
    ultimately show ?thesis by simp
  qed
qed

text \<open>A difference below one key of an object leaves the values of the other keys.\<close>

lemma apply_head_frame:
  assumes "apply_at (JObj kvs) (PKey s # rest) c = Inr r"
  shows "\<exists>kvs'. r = JObj kvs' \<and> (\<forall>s'. s' \<noteq> s \<longrightarrow> map_of kvs' s' = map_of kvs s')"
proof (cases rest)
  case Nil
  then show ?thesis using assms
    by (cases c)
      (auto simp: bind_err_Inr update_conv' delete_conv' dest!: put_prop_Inr
        split: option.splits if_splits)
next
  case (Cons k' rest')
  then show ?thesis using assms
    by (auto simp: bind_err_Inr update_conv' dest!: put_prop_Inr split: option.splits if_splits)
qed

lemma apply_changes_frame:
  assumes "apply_changes cs (JObj kvs) = Inr r"
    and "\<forall>c \<in> set cs. \<exists>s rest. change_path c = PKey s # rest \<and> s \<noteq> X"
  shows "\<exists>kvs'. r = JObj kvs' \<and> map_of kvs' X = map_of kvs X"
  using assms
proof (induction cs arbitrary: kvs)
  case Nil
  then show ?case by auto
next
  case (Cons c cs)
  obtain s rest where p: "change_path c = PKey s # rest" and ne: "s \<noteq> X"
    using Cons.prems(2) by auto
  obtain r1 where a1: "apply_at (JObj kvs) (PKey s # rest) c = Inr r1"
    and a2: "apply_changes cs r1 = Inr r"
    using Cons.prems(1) p by (auto simp: apply_changes_Cons applyChange_def bind_err_Inr)
  from apply_head_frame [OF a1] ne obtain kvs1 where
    r1: "r1 = JObj kvs1" and f: "map_of kvs1 X = map_of kvs X"
    by auto
  from Cons.IH [of kvs1] a2 r1 Cons.prems(2) obtain kvs' where
    "r = JObj kvs'" "map_of kvs' X = map_of kvs1 X"
    by auto
  then show ?case using f by simp
qed

lemma apply_changes_focus:
  assumes "apply_changes (A @ G @ B) (JObj kvs) = Inr r"
    and "\<forall>c \<in> set (A @ B). \<exists>s rest. change_path c = PKey s # rest \<and> s \<noteq> X"
    and "\<And>par r'. holds par (PKey X) v \<Longrightarrow> apply_changes G par = Inr r'
           \<Longrightarrow> \<exists>v'. set_elem par (PKey X) v' = Inr r' \<and> Q v'"
    and "map_of kvs X = Some v"
  shows "\<exists>kvs' v'. r = JObj kvs' \<and> map_of kvs' X = Some v' \<and> Q v'"
proof -
  from assms(1) obtain r1 r2 where a: "apply_changes A (JObj kvs) = Inr r1"
    and g: "apply_changes G r1 = Inr r2" and b: "apply_changes B r2 = Inr r"
    by (auto simp: apply_changes_append bind_err_Inr)
  from apply_changes_frame [OF a, of X] assms(2) obtain kvs1 where
    r1: "r1 = JObj kvs1" and f1: "map_of kvs1 X = map_of kvs X"
    by auto
  have h: "holds r1 (PKey X) v" using r1 f1 assms(4) by simp
  from assms(3) [OF h g] obtain v' where s: "set_elem r1 (PKey X) v' = Inr r2" and q: "Q v'"
    by blast
  have "map_of kvs1 X = Some v" using h r1 by simp
  then have "set_elem (JObj kvs1) (PKey X) v' = Inr (JObj (AList.update X v' kvs1))"
    by (rule set_elem_own)
  then have r2: "r2 = JObj (AList.update X v' kvs1)" using s r1 by (simp del: set_elem.simps)
  from apply_changes_frame [of B "AList.update X v' kvs1" r X] b r2 assms(2) obtain kvs' where
    "r = JObj kvs'" "map_of kvs' X = map_of (AList.update X v' kvs1) X"
    by auto
  then show ?thesis using q by (auto simp: update_conv')
qed

text \<open>The paths of the differences of two objects.\<close>

lemma diff_props_append: "diff_props (a1 @ a2) b p = diff_props a1 b p @ diff_props a2 b p"
  by (induction a1) simp_all

lemma diff_props_heads:
  "c \<in> set (diff_props a b p) \<Longrightarrow> \<exists>s r. s \<in> fst ` set a \<and> change_path c = p @ PKey s # r"
proof (induction a)
  case Nil
  then show ?case by simp
next
  case (Cons kv a)
  show ?case
  proof (cases "c \<in> set (diff_props a b p)")
    case True
    then show ?thesis using Cons.IH by auto
  next
    case False
    show ?thesis
    proof (cases "map_of b (fst kv)")
      case None
      then have "c = DiffDeleted (p @ [PKey (fst kv)]) (snd kv)" using Cons.prems False by simp
      then show ?thesis by auto
    next
      case (Some w)
      then have "c \<in> set (deepDiff (snd kv) w (p @ [PKey (fst kv)]))" using Cons.prems False by simp
      then obtain r where "change_path c = (p @ [PKey (fst kv)]) @ r"
        using deepDiff_paths(1) by blast
      then show ?thesis by auto
    qed
  qed
qed

lemma diff_props_mem:
  "c \<in> set (diff_props a b p) \<Longrightarrow>
     \<exists>s v. (s, v) \<in> set a \<and>
       (case map_of b s of
          Some w \<Rightarrow> c \<in> set (deepDiff v w (p @ [PKey s]))
        | None \<Rightarrow> c = DiffDeleted (p @ [PKey s]) v)"
proof (induction a)
  case Nil
  then show ?case by simp
next
  case (Cons kv a)
  show ?case
  proof (cases "c \<in> set (diff_props a b p)")
    case True
    then show ?thesis using Cons.IH by auto
  next
    case False
    then have "case map_of b (fst kv) of
          Some w \<Rightarrow> c \<in> set (deepDiff (snd kv) w (p @ [PKey (fst kv)]))
        | None \<Rightarrow> c = DiffDeleted (p @ [PKey (fst kv)]) (snd kv)"
      using Cons.prems by (simp split: option.splits)
    moreover have "(fst kv, snd kv) \<in> set (kv # a)" by simp
    ultimately show ?thesis by blast
  qed
qed

lemma diff_props_group:
  "(s, v) \<in> set a \<Longrightarrow> map_of b s = Some w
    \<Longrightarrow> set (deepDiff v w (p @ [PKey s])) \<subseteq> set (diff_props a b p)"
  by (induction a) auto

lemma diff_elems_heads:
  "c \<in> set (diff_elems xs ys p i) \<Longrightarrow> \<exists>j r. change_path c = p @ PIdx j # r"
proof (induction xs arbitrary: ys i)
  case Nil
  then show ?case by simp
next
  case (Cons x xs)
  show ?case
  proof (cases ys)
    case Nil
    then show ?thesis using Cons.prems by simp
  next
    case ys: (Cons y ys')
    show ?thesis
    proof (cases "c \<in> set (diff_elems xs ys' p (Suc i))")
      case True
      then show ?thesis by (rule Cons.IH)
    next
      case False
      then have "c \<in> set (deepDiff x y (p @ [PIdx i]))" using Cons.prems ys by simp
      then obtain r where "change_path c = (p @ [PIdx i]) @ r"
        using deepDiff_paths(1) by blast
      then show ?thesis by auto
    qed
  qed
qed

lemma deepDiff_key_objects:
  assumes "c \<in> set (deepDiff v w p)" and "change_path c = p @ PKey K # r"
  shows "\<exists>m n. v = JObj m \<and> w = JObj n"
proof (cases "realTypeOf v = ''array'' \<and> realTypeOf w = ''array''")
  case True
  then obtain xs ys where vw: "v = JArr xs" "w = JArr ys" by (cases v; cases w) auto
  have "c \<in> set (diff_elems xs ys p 0)" using assms vw by auto
  then show ?thesis using diff_elems_heads [of c xs ys p 0] assms(2) by auto
next
  case False
  show ?thesis
  proof (cases "realTypeOf v = ''object'' \<and> realTypeOf w = ''object''")
    case True
    then show ?thesis by (cases v; cases w) auto
  next
    case no: False
    then show ?thesis using assms deepDiff_atom [OF False no, of p] by (auto split: if_splits)
  qed
qed

lemma deepDiff_object_key:
  assumes "c \<in> set (deepDiff (JObj m) (JObj n) p)" and "change_path c = p @ PKey K # r"
  shows "(\<exists>v. (K, v) \<in> set m \<and>
            (case map_of n K of Some w \<Rightarrow> c \<in> set (deepDiff v w (p @ [PKey K])) | None \<Rightarrow> True))
         \<or> (K \<notin> fst ` set m \<and> K \<in> fst ` set n)"
proof (cases "c \<in> set (diff_props m n p)")
  case True
  from diff_props_mem [OF True] obtain s v where sv: "(s, v) \<in> set m"
    and c: "case map_of n s of
          Some w \<Rightarrow> c \<in> set (deepDiff v w (p @ [PKey s]))
        | None \<Rightarrow> c = DiffDeleted (p @ [PKey s]) v"
    by blast
  have "s = K"
  proof (cases "map_of n s")
    case None
    then show ?thesis using c assms(2) by simp
  next
    case (Some w)
    then have "c \<in> set (deepDiff v w (p @ [PKey s]))" using c by simp
    then obtain r' where "change_path c = (p @ [PKey s]) @ r'" using deepDiff_paths(1) by blast
    then show ?thesis using assms(2) by simp
  qed
  then show ?thesis using sv c by (auto split: option.splits)
next
  case False
  then obtain kw where "kw \<in> set n" "fst kw \<notin> fst ` set m" "c = DiffNew (p @ [PKey (fst kw)]) (snd kw)"
    using assms(1) by auto
  then show ?thesis using assms(2) by force
qed

text \<open>The differences that the observer applies, below \<^verbatim>\<open>Common[K]\<close> and in the whole document.\<close>

lemma filter_push:
  "filter (applied classes) (map (push k) cs) = map (push k) (filter (head_in classes) cs)"
proof -
  have "applied classes (push k c) = head_in classes c" for c
  proof (cases "change_path c")
    case Nil
    then show ?thesis by (simp add: applied_def head_in_def)
  next
    case (Cons e rest)
    then show ?thesis by (cases e) (simp_all add: applied_def head_in_def)
  qed
  then show ?thesis by (induction cs) simp_all
qed

lemma head_in_group:
  assumes "K \<in> set classes"
  shows "filter (head_in classes) (deepDiff a b [PKey K]) = deepDiff a b [PKey K]"
proof -
  have "head_in classes c" if "c \<in> set (deepDiff a b [PKey K])" for c
  proof -
    have "\<exists>r. change_path c = [PKey K] @ r"
      using deepDiff_paths(1) [of a b "[PKey K]"] that by (rule bspec)
    then show ?thesis using assms by (auto simp: head_in_def)
  qed
  then have "\<forall>c \<in> set (deepDiff a b [PKey K]). head_in classes c" by blast
  then show ?thesis by (rule filter_True)
qed

lemma common_converges:
  assumes "apply_changes (filter (head_in classes) (deepDiff (JObj fc) (JObj tc) [])) (JObj fc) = Inr r"
    and "wf_json (JObj fc)" and "wf_json b" and "plain_keys b"
    and "K \<in> set classes" and "map_of fc K = Some a" and "map_of tc K = Some b"
  shows "\<exists>fc' a'. r = JObj fc' \<and> map_of fc' K = Some a' \<and> deep_equal a' b"
proof -
  have mem: "(K, a) \<in> set fc" using assms(6) by (rule map_of_SomeD)
  then obtain pre post where fc: "fc = pre @ (K, a) # post" by (auto dest: split_list)
  have d: "distinct (map fst fc)" and wa: "wf_json a" using assms(2) mem by auto
  have kpre: "K \<notin> fst ` set pre" and kpost: "K \<notin> fst ` set post" using d fc by auto
  let ?P = "head_in classes"
  let ?N = "map (\<lambda>kw. DiffNew [PKey (fst kw)] (snd kw))
              (filter (\<lambda>kw. fst kw \<notin> fst ` set fc \<and> fst kw \<noteq> []) tc)"
  let ?A = "filter ?P (diff_props pre tc [])"
  let ?G = "deepDiff a b [PKey K]"
  let ?B = "filter ?P (diff_props post tc [] @ ?N)"
  have "deepDiff (JObj fc) (JObj tc) [] = diff_props pre tc [] @ ?G @ diff_props post tc [] @ ?N"
    using assms(7) by (simp add: fc diff_props_append)
  then have split: "filter ?P (deepDiff (JObj fc) (JObj tc) []) = ?A @ ?G @ ?B"
    using head_in_group [OF assms(5), of a b] by simp
  have heads: "\<forall>c \<in> set (?A @ ?B). \<exists>s rest. change_path c = PKey s # rest \<and> s \<noteq> K"
  proof
    fix c assume "c \<in> set (?A @ ?B)"
    then consider "c \<in> set (diff_props pre tc [])" | "c \<in> set (diff_props post tc [])" | "c \<in> set ?N"
      by auto
    then show "\<exists>s rest. change_path c = PKey s # rest \<and> s \<noteq> K"
    proof cases
      case 1
      then show ?thesis using diff_props_heads [of c pre tc "[]"] kpre by auto
    next
      case 2
      then show ?thesis using diff_props_heads [of c post tc "[]"] kpost by auto
    next
      case 3
      then obtain kw where kw: "fst kw \<notin> fst ` set fc" "c = DiffNew [PKey (fst kw)] (snd kw)" by auto
      have "K \<in> fst ` set fc" using mem by force
      then have "fst kw \<noteq> K" using kw(1) by auto
      then show ?thesis using kw(2) by simp
    qed
  qed
  have grp: "\<exists>v'. set_elem par (PKey K) v' = Inr r' \<and> deep_equal v' b"
    if "holds par (PKey K) a" "apply_changes ?G par = Inr r'" for par r'
    using deepDiff_converges [OF wa assms(3,4) that(1)] that(2) by auto
  show ?thesis
    by (rule apply_changes_focus [of ?A ?G ?B fc r K a "\<lambda>v'. deep_equal v' b"])
      (use assms(1,6) split heads grp in simp_all)
qed

lemma diff_props_Cons_Some:
  "map_of b s = Some w
    \<Longrightarrow> diff_props ((s, v) # a) b p = deepDiff v w (p @ [PKey s]) @ diff_props a b p"
  by simp

lemma document_converges:
  assumes "apply_changes (filter (applied classes) (deepDiff (JObj fkvs) (JObj tkvs) [])) (JObj fkvs)
             = Inr r"
    and "wf_json (JObj fkvs)" and "wf_json b" and "plain_keys b"
    and "map_of fkvs ''Common'' = Some (JObj fc)" and "map_of tkvs ''Common'' = Some (JObj tc)"
    and "K \<in> set classes" and "map_of fc K = Some a" and "map_of tc K = Some b"
  shows "\<exists>kvs' fc' a'. r = JObj kvs' \<and> map_of kvs' ''Common'' = Some (JObj fc')
           \<and> map_of fc' K = Some a' \<and> deep_equal a' b"
proof -
  let ?X = "''Common''"
  have mem: "(?X, JObj fc) \<in> set fkvs" using assms(5) by (rule map_of_SomeD)
  then obtain pre post where f: "fkvs = pre @ (?X, JObj fc) # post" by (auto dest: split_list)
  have d: "distinct (map fst fkvs)" and wall: "\<forall>kv \<in> set fkvs. wf_json (snd kv)"
    using assms(2) by simp_all
  from wall mem have "wf_json (snd (?X, JObj fc))" by (rule bspec)
  then have wfc: "wf_json (JObj fc)" by (simp only: snd_conv)
  have kpre: "?X \<notin> fst ` set pre" and kpost: "?X \<notin> fst ` set post" using d f by auto
  let ?P = "applied classes"
  let ?N = "map (\<lambda>kw. DiffNew [PKey (fst kw)] (snd kw))
              (filter (\<lambda>kw. fst kw \<notin> fst ` set fkvs \<and> fst kw \<noteq> []) tkvs)"
  let ?g = "filter (head_in classes) (deepDiff (JObj fc) (JObj tc) [])"
  let ?A = "filter ?P (diff_props pre tkvs [])"
  let ?G = "map (push (PKey ?X)) ?g"
  let ?B = "filter ?P (diff_props post tkvs [] @ ?N)"
  have "deepDiff (JObj fc) (JObj tc) [PKey ?X] = map (push (PKey ?X)) (deepDiff (JObj fc) (JObj tc) [])"
    by (rule deepDiff_push(1))
  then have grp: "filter ?P (deepDiff (JObj fc) (JObj tc) [PKey ?X]) = ?G"
    by (simp only: filter_push)
  have "diff_props fkvs tkvs []
      = diff_props pre tkvs [] @ diff_props ((?X, JObj fc) # post) tkvs []"
    by (simp only: f diff_props_append)
  also have "diff_props ((?X, JObj fc) # post) tkvs []
      = deepDiff (JObj fc) (JObj tc) ([] @ [PKey ?X]) @ diff_props post tkvs []"
    by (rule diff_props_Cons_Some [OF assms(6)])
  finally have "diff_props fkvs tkvs []
      = diff_props pre tkvs [] @ deepDiff (JObj fc) (JObj tc) [PKey ?X] @ diff_props post tkvs []"
    by (simp only: append_Nil)
  moreover have "deepDiff (JObj fkvs) (JObj tkvs) [] = diff_props fkvs tkvs [] @ ?N" by simp
  ultimately have "deepDiff (JObj fkvs) (JObj tkvs) []
      = diff_props pre tkvs [] @ deepDiff (JObj fc) (JObj tc) [PKey ?X] @ diff_props post tkvs [] @ ?N"
    by (simp only: append_assoc)
  then have "filter ?P (deepDiff (JObj fkvs) (JObj tkvs) [])
      = ?A @ filter ?P (deepDiff (JObj fc) (JObj tc) [PKey ?X]) @ ?B"
    by (simp only: filter_append)
  then have split: "filter ?P (deepDiff (JObj fkvs) (JObj tkvs) []) = ?A @ ?G @ ?B"
    by (simp only: grp)
  have heads: "\<forall>c \<in> set (?A @ ?B). \<exists>s rest. change_path c = PKey s # rest \<and> s \<noteq> ?X"
  proof
    fix c assume "c \<in> set (?A @ ?B)"
    then consider "c \<in> set (diff_props pre tkvs [])" | "c \<in> set (diff_props post tkvs [])"
      | "c \<in> set ?N"
      by auto
    then show "\<exists>s rest. change_path c = PKey s # rest \<and> s \<noteq> ?X"
    proof cases
      case 1
      then obtain s r where sr: "s \<in> fst ` set pre" "change_path c = [] @ PKey s # r"
        using diff_props_heads [of c pre tkvs "[]"] by blast
      then have "s \<noteq> ?X" using kpre by blast
      then show ?thesis using sr(2) by simp
    next
      case 2
      then obtain s r where sr: "s \<in> fst ` set post" "change_path c = [] @ PKey s # r"
        using diff_props_heads [of c post tkvs "[]"] by blast
      then have "s \<noteq> ?X" using kpost by blast
      then show ?thesis using sr(2) by simp
    next
      case 3
      then obtain kw where kw: "fst kw \<notin> fst ` set fkvs" "c = DiffNew [PKey (fst kw)] (snd kw)"
        by auto
      have xin: "?X \<in> fst ` set fkvs" using mem by force
      have "fst kw \<noteq> ?X"
      proof
        assume "fst kw = ?X"
        with kw(1) xin show False by simp
      qed
      then show ?thesis using kw(2) by simp
    qed
  qed
  have ne: "\<forall>c \<in> set ?g. change_path c \<noteq> []"
    by (auto simp: head_in_def)
  have inner: "\<exists>v'. set_elem par (PKey ?X) v' = Inr r'
        \<and> (\<exists>fc' a'. v' = JObj fc' \<and> map_of fc' K = Some a' \<and> deep_equal a' b)"
    if h: "holds par (PKey ?X) (JObj fc)" and ap: "apply_changes ?G par = Inr r'" for par r'
  proof -
    have "apply_changes ?G par
        = bind_err (apply_changes ?g (JObj fc)) (\<lambda>child'. set_elem par (PKey ?X) child')"
      by (rule lift_changes [OF h ne])
    then obtain child' where c: "apply_changes ?g (JObj fc) = Inr child'"
      and s: "set_elem par (PKey ?X) child' = Inr r'"
      using ap by (auto simp: bind_err_Inr)
    from common_converges [OF c wfc assms(3,4,7,8,9)] s show ?thesis by blast
  qed
  have "\<exists>kvs' v'. r = JObj kvs' \<and> map_of kvs' ?X = Some v'
      \<and> (\<exists>fc' a'. v' = JObj fc' \<and> map_of fc' K = Some a' \<and> deep_equal a' b)"
    apply (rule apply_changes_focus [of ?A ?G ?B fkvs r ?X "JObj fc"])
       apply (simp only: split [symmetric] assms(1))
      apply (rule heads)
     apply (erule (1) inner)
    apply (rule assms(5))
    done
  then show ?thesis by blast
qed

text \<open>Which classes are marked as updated.\<close>

lemma equal_class_not_marked:
  assumes "deep_equal a b"
    and "wf_json (JObj fkvs)"
    and "map_of fkvs ''Common'' = Some (JObj fc)" and "map_of tkvs ''Common'' = Some (JObj tc)"
    and "map_of fc K = Some a" and "map_of tc K = Some b"
    and "\<not> class_elsewhere (JObj fkvs) K" and "\<not> class_elsewhere (JObj tkvs) K"
    and "c \<in> set (deepDiff (JObj fkvs) (JObj tkvs) [])"
  shows "path1 c \<noteq> Some K"
proof
  assume "path1 c = Some K"
  then obtain k0 rest where p: "change_path c = k0 # PKey K # rest"
    by (auto split: list.splits pathelem.splits)
  have "c \<in> set (diff_props fkvs tkvs [])"
  proof (rule ccontr)
    assume "c \<notin> set (diff_props fkvs tkvs [])"
    then obtain kw where "c = DiffNew [PKey (fst kw)] (snd kw)" using assms(9) by auto
    then show False using p by simp
  qed
  from diff_props_mem [OF this] obtain s v where sv: "(s, v) \<in> set fkvs"
    and c: "case map_of tkvs s of
          Some w \<Rightarrow> c \<in> set (deepDiff v w ([] @ [PKey s]))
        | None \<Rightarrow> c = DiffDeleted ([] @ [PKey s]) v"
    by blast
  obtain w where w: "map_of tkvs s = Some w" and cw: "c \<in> set (deepDiff v w [PKey s])"
    using c p by (cases "map_of tkvs s") auto
  obtain r' where "change_path c = [PKey s] @ r'"
    using deepDiff_paths(1) [of v w "[PKey s]"] cw by blast
  then have p': "change_path c = [PKey s] @ PKey K # rest" using p by simp
  from deepDiff_key_objects [OF cw p'] obtain m n where vw: "v = JObj m" "w = JObj n" by blast
  have key: "(\<exists>v'. (K, v') \<in> set m \<and>
            (case map_of n K of Some w' \<Rightarrow> c \<in> set (deepDiff v' w' ([PKey s] @ [PKey K])) | None \<Rightarrow> True))
         \<or> (K \<notin> fst ` set m \<and> K \<in> fst ` set n)"
    by (rule deepDiff_object_key [OF cw [unfolded vw] p'])
  have tw: "(s, JObj n) \<in> set tkvs" using w vw by (auto dest: map_of_SomeD)
  show False
  proof (cases "s = ''Common''")
    case False
    have "K \<in> fst ` set m \<or> K \<in> fst ` set n" using key by force
    then have "class_elsewhere (JObj fkvs) K \<or> class_elsewhere (JObj tkvs) K"
      using sv tw vw False by (force simp: class_elsewhere_def)
    then show ?thesis using assms(7,8) by simp
  next
    case True
    have "map_of fkvs s = Some v" using sv assms(2) by simp
    then have m: "m = fc" and n: "n = tc" using True vw assms(3,4) w by simp_all
    have km: "K \<in> fst ` set m" using assms(5) m by (force dest: map_of_SomeD)
    then obtain v' where v': "(K, v') \<in> set m"
      and cc: "case map_of n K of Some w' \<Rightarrow> c \<in> set (deepDiff v' w' ([PKey s] @ [PKey K])) | None \<Rightarrow> True"
      using key by blast
    have "distinct (map fst fc)" using assms(2) map_of_SomeD [OF assms(3)] by auto
    then have "map_of fc K = Some v'" using v' m by simp
    then have "v' = a" using assms(5) by simp
    then have "c \<in> set (deepDiff a b ([PKey s] @ [PKey K]))" using cc n assms(6) by simp
    then show ?thesis using deep_equal_no_diff(1) [OF assms(1)] by simp
  qed
qed

lemma changed_class_marked:
  assumes "\<not> deep_equal a b" and "wf_json a" and "wf_json b" and "plain_keys b"
    and "map_of fkvs ''Common'' = Some (JObj fc)" and "map_of tkvs ''Common'' = Some (JObj tc)"
    and "K \<in> set classes" and "map_of fc K = Some a" and "map_of tc K = Some b"
  shows "\<exists>c \<in> set (deepDiff (JObj fkvs) (JObj tkvs) []). applied classes c \<and> path1 c = Some K"
proof -
  let ?p = "[PKey ''Common''] @ [PKey K]"
  have "deepDiff a b ?p \<noteq> []" using no_diff_deep_equal [OF assms(2-4)] assms(1) by blast
  then obtain c where c: "c \<in> set (deepDiff a b ?p)" by (cases "deepDiff a b ?p") auto
  obtain r where "change_path c = ?p @ r" using deepDiff_paths(1) [of a b ?p] c by blast
  then have p1: "path1 c = Some K" by simp
  have "set (deepDiff a b ?p) \<subseteq> set (diff_props fc tc [PKey ''Common''])"
    by (rule diff_props_group [OF map_of_SomeD [OF assms(8)] assms(9)])
  also have "\<dots> \<subseteq> set (deepDiff (JObj fc) (JObj tc) ([] @ [PKey ''Common'']))" by auto
  also have "\<dots> \<subseteq> set (diff_props fkvs tkvs [])"
    by (rule diff_props_group [OF map_of_SomeD [OF assms(5)] assms(6)])
  also have "\<dots> \<subseteq> set (deepDiff (JObj fkvs) (JObj tkvs) [])" by auto
  finally have "c \<in> set (deepDiff (JObj fkvs) (JObj tkvs) [])" using c by blast
  moreover have "applied classes c" using p1 assms(7) by (simp add: applied_def)
  ultimately show ?thesis using p1 by blast
qed

text \<open>The copy of the updated classes into the merged document.\<close>

lemma copy_fold_marked:
  assumes "fold_err (copy_updated from) paths fc0 = Inr fc'"
    and "get_prop (Some from) ''Common'' = Inr c" and "get_prop c K = Inr v"
    and "K \<noteq> ''__proto__''"
  shows "map_of fc' K = (if K \<in> set paths then Some (truth_copy v) else map_of fc0 K)"
  using assms(1)
proof (induction paths arbitrary: fc0)
  case Nil
  then show ?case by simp
next
  case (Cons p paths)
  obtain fc1 where step: "copy_updated from p fc0 = Inr fc1"
    and rest: "fold_err (copy_updated from) paths fc1 = Inr fc'"
    using Cons.prems by (auto split: sum.splits)
  have "map_of fc1 K = (if K = p then Some (truth_copy v) else map_of fc0 K)"
    using step assms(2,3,4)
    by (auto simp: copy_updated_def bind_err_Inr put_prop_plain update_conv' dest: put_prop_frame)
  then show ?case using Cons.IH [OF rest] by auto
qed

lemma truth_copy_deep_equal:
  assumes "deep_equal a' b"
    and "realTypeOf b = ''string'' \<or> realTypeOf b = ''array'' \<or> realTypeOf b = ''object''"
    and "plain_keys b"
  shows "deep_equal (truth_copy (Some a')) b"
proof (cases b)
  case (JStr s)
  then have "a' = JStr s" using assms(1) by (cases a') simp_all
  then show ?thesis using JStr by (simp add: truth_copy_def)
next
  case (JArr ys)
  then obtain xs where "a' = JArr xs" using assms(1) by (cases a') simp_all
  then show ?thesis using JArr assms(1) by (simp add: truth_copy_def)
next
  case (JObj n)
  then obtain m where m: "a' = JObj m" using assms(1) by (cases a') simp_all
  have de: "deep_equal_props m n" and keys: "fst ` set m = fst ` set n"
    using assms(1) m JObj by simp_all
  have "deep_equal_props (assign_props [] m) n"
    using de assign_props_subset [of "[]" m] by (auto simp: deep_equal_props_iff)
  moreover have "fst ` set (assign_props [] m) = fst ` set n"
  proof -
    have np: "''__proto__'' \<notin> fst ` set n" using assms(3) JObj by auto
    have "k \<in> fst ` set (assign_props [] m) \<longleftrightarrow> k \<in> fst ` set n" for k
    proof (cases "k = ''__proto__''")
      case True
      have "fst ` set (assign_props [] m) \<subseteq> fst ` set m"
        using assign_props_subset [of "[]" m] by auto
      then show ?thesis using True np keys by auto
    next
      case False
      then show ?thesis using keys by (simp add: assign_props_keys)
    qed
    then show ?thesis by blast
  qed
  ultimately show ?thesis using m JObj by (simp add: truth_copy_def)
qed (use assms(2) in simp_all)

text \<open>
  Claim C2, as amended. \<open>K\<close> is a class of truth that \<^verbatim>\<open>desired.Common\<close> and \<^verbatim>\<open>current.Common\<close>
  both have, the documents and their \<^verbatim>\<open>Common\<close> members being objects with distinct keys.
  If the two values are deep-equal, and no other member of either document is an object
  with the key \<open>K\<close>, then the document that \<^verbatim>\<open>process\<close> resolves with has no \<^verbatim>\<open>Common[K]\<close>: a
  class without a difference is left out. If the two values are not deep-equal, and the
  desired one is a string, an array or an object, with no key inside that is the empty
  string or \<^verbatim>\<open>__proto__\<close>, then \<^verbatim>\<open>Common[K]\<close> of the merged document is deep-equal to
  \<^verbatim>\<open>desired.Common[K]\<close>. The class \<open>K\<close> itself is not named \<^verbatim>\<open>__proto__\<close>.
\<close>

theorem truth_class_convergence:
  assumes "process classesOfTruth desired current = Inr merged"
    and "desired = JObj tkvs" and "current = JObj fkvs"
    and "wf_json desired" and "wf_json current"
    and "map_of tkvs ''Common'' = Some (JObj tc)" and "map_of fkvs ''Common'' = Some (JObj fc)"
    and "K \<in> set classesOfTruth" and "K \<noteq> ''__proto__''"
    and "map_of fc K = Some a" and "map_of tc K = Some b"
  shows "(deep_equal a b \<and> \<not> class_elsewhere current K \<and> \<not> class_elsewhere desired K
            \<longrightarrow> common_class merged K = None)
       \<and> (\<not> deep_equal a b \<and> plain_keys b
            \<and> (realTypeOf b = ''string'' \<or> realTypeOf b = ''array'' \<or> realTypeOf b = ''object'')
            \<longrightarrow> (\<exists>m. common_class merged K = Some m \<and> deep_equal m b))"
proof -
  let ?D = "deepDiff (JObj fkvs) (JObj tkvs) []"
  have tcm: "get_prop (Some desired) ''Common'' = Inr (Some (JObj tc))"
    using assms(2,6) by simp
  from assms(1) tcm obtain fc0 st fcf where
    pop: "populateNonTruthClasses (Some (JObj tc)) classesOfTruth = Inr fc0"
    and obs: "fold_err (observe classesOfTruth) (observableDiff current desired) (current, []) = Inr st"
    and cp: "fold_err (copy_updated (fst st)) (snd st) fc0 = Inr fcf"
    and m: "merged = JObj [(''Common'', JObj fcf)]"
    by (auto simp: process_def bind_err_Inr)
  obtain doc' ups' where st: "st = (doc', ups')" by (cases st)
  have obs': "fold_err (observe classesOfTruth) ?D (JObj fkvs, []) = Inr (doc', ups')"
    using obs st assms(2,3) by (simp add: observableDiff_def)
  from observe_fold_applied [OF obs'] have
    ap: "apply_changes (filter (applied classesOfTruth) ?D) (JObj fkvs) = Inr doc'"
    and ups: "set ups' = {k. \<exists>c \<in> set ?D. applied classesOfTruth c \<and> path1 c = Some k}"
    by simp_all
  have mk: "common_class merged K = map_of fcf K" using m by (simp add: common_class_object)
  have fc0: "map_of fc0 K = None" using populate_lookup [OF pop assms(9)] assms(8) by simp
  have wa: "wf_json a" and wb: "wf_json b"
  proof -
    have "(''Common'', JObj fc) \<in> set fkvs" "(''Common'', JObj tc) \<in> set tkvs"
      using assms(6,7) by (auto dest: map_of_SomeD)
    then have "wf_json (JObj fc)" "wf_json (JObj tc)"
      using assms(2-5) by (auto simp del: wf_json.simps(2) simp add: wf_json.simps(2) [of fkvs] wf_json.simps(2) [of tkvs])
    moreover have "(K, a) \<in> set fc" "(K, b) \<in> set tc" using assms(10,11) by (auto dest: map_of_SomeD)
    ultimately show "wf_json a" "wf_json b" by auto
  qed
  have eq_part: "common_class merged K = None"
    if "deep_equal a b" "\<not> class_elsewhere current K" "\<not> class_elsewhere desired K"
  proof -
    have "path1 c \<noteq> Some K" if "c \<in> set ?D" for c
      using equal_class_not_marked [OF \<open>deep_equal a b\<close> _ assms(7,6,10,11) _ _ that]
        \<open>\<not> class_elsewhere current K\<close> \<open>\<not> class_elsewhere desired K\<close> assms(2,3,5) by simp
    then have "K \<notin> set ups'" using ups by auto
    then have "map_of fcf K = map_of fc0 K" using copy_fold_other [OF cp] st by simp
    then show ?thesis using mk fc0 by simp
  qed
  have ne_part: "\<exists>m. common_class merged K = Some m \<and> deep_equal m b"
    if "\<not> deep_equal a b" "plain_keys b"
      "realTypeOf b = ''string'' \<or> realTypeOf b = ''array'' \<or> realTypeOf b = ''object''"
  proof -
    have wf: "wf_json (JObj fkvs)" using assms(3,5) by simp
    from document_converges [OF ap wf wb that(2) assms(7,6,8,10,11)] obtain kvs' fc' a' where
      d: "doc' = JObj kvs'" and c: "map_of kvs' ''Common'' = Some (JObj fc')"
      and k: "map_of fc' K = Some a'" and de: "deep_equal a' b"
      by blast
    have "K \<in> set ups'"
      using changed_class_marked [OF that(1) wa wb that(2) assms(7,6,8,10,11)] ups by auto
    moreover have "get_prop (Some (fst st)) ''Common'' = Inr (Some (JObj fc'))"
      using st d c by simp
    moreover have "get_prop (Some (JObj fc')) K = Inr (Some a')" using k by simp
    ultimately have "map_of fcf K = Some (truth_copy (Some a'))"
      using copy_fold_marked [OF cp _ _ assms(9)] st by simp
    then show ?thesis using mk truth_copy_deep_equal [OF de that(3,2)] by simp
  qed
  show ?thesis using eq_part ne_part by blast
qed

theorem truth_class_convergence_witness:
  "process [''DNS''] dns_desired dns_current
     = Inr (JObj [(''Common'', JObj [(''hostname'', JStr ''bigip.example.com''),
                                     (''DNS'', JObj [(''nameServers'', JArr [JStr ''1.2.3.4'', JStr ''8.8.8.8''])])])])
   \<and> (\<exists>m. common_class
             (JObj [(''Common'', JObj [(''hostname'', JStr ''bigip.example.com''),
                                       (''DNS'', JObj [(''nameServers'', JArr [JStr ''1.2.3.4'', JStr ''8.8.8.8''])])])])
             ''DNS'' = Some m
          \<and> deep_equal m (JObj [(''nameServers'', JArr [JStr ''1.2.3.4'', JStr ''8.8.8.8''])]))"
proof -
  let ?b = "JObj [(''nameServers'', JArr [JStr ''1.2.3.4'', JStr ''8.8.8.8''])]"
  let ?a = "JObj [(''nameServers'', JArr [JStr ''1.2.3.4'']), (''search'', JArr [JStr ''f5.com''])]"
  let ?tc = "[(''hostname'', JStr ''bigip.example.com''), (''DNS'', ?b)]"
  let ?fc = "[(''DNS'', ?a)]"
  let ?m = "JObj [(''Common'', JObj ?tc)]"
  have h1: "process [''DNS''] dns_desired dns_current = Inr ?m" by code_simp
  have h2: "dns_desired = JObj [(''Common'', JObj ?tc)]" by (simp add: dns_desired_def)
  have h3: "dns_current = JObj [(''Common'', JObj ?fc)]" by (simp add: dns_current_def)
  have h4: "wf_json dns_desired" by (simp add: dns_desired_def)
  have h5: "wf_json dns_current" by (simp add: dns_current_def)
  have h6: "map_of [(''Common'', JObj ?tc)] ''Common'' = Some (JObj ?tc)" by simp
  have h7: "map_of [(''Common'', JObj ?fc)] ''Common'' = Some (JObj ?fc)" by simp
  have h8: "''DNS'' \<in> set [''DNS'']" by simp
  have h9: "''DNS'' \<noteq> ''__proto__''" by simp
  have h10: "map_of ?fc ''DNS'' = Some ?a" by simp
  have h11: "map_of ?tc ''DNS'' = Some ?b" by simp
  have n1: "\<not> deep_equal ?a ?b" by simp
  have n2: "plain_keys ?b" by simp
  have n3: "realTypeOf ?b = ''string'' \<or> realTypeOf ?b = ''array'' \<or> realTypeOf ?b = ''object''"
    by simp
  have "\<exists>m. common_class ?m ''DNS'' = Some m \<and> deep_equal m ?b"
    using truth_class_convergence [OF h1 h2 h3 h4 h5 h6 h7 h8 h9 h10 h11] n1 n2 n3 by blast
  with h1 show ?thesis by simp
qed

text \<open>
  Claim C2 as it is written fails when the two values are deep-equal: the merged document
  has no \<^verbatim>\<open>Common.DNS\<close>, so it is not deep-equal to the value that both documents have.
\<close>

theorem unchanged_truth_class_counterexample:
  "process [''DNS'']
     (JObj [(''Common'', JObj [(''DNS'', JObj [(''nameServers'', JArr [JStr ''1.2.3.4''])])])])
     (JObj [(''Common'', JObj [(''DNS'', JObj [(''nameServers'', JArr [JStr ''1.2.3.4''])])])])
     = Inr (JObj [(''Common'', JObj [])])
   \<and> common_class (JObj [(''Common'', JObj [(''DNS'', JObj [(''nameServers'', JArr [JStr ''1.2.3.4''])])])])
        ''DNS''
      = Some (JObj [(''nameServers'', JArr [JStr ''1.2.3.4''])])
   \<and> deep_equal (JObj [(''nameServers'', JArr [JStr ''1.2.3.4''])])
        (JObj [(''nameServers'', JArr [JStr ''1.2.3.4''])])
   \<and> common_class (JObj [(''Common'', JObj [])]) ''DNS'' = None"
  by code_simp

text \<open>
  A class of truth whose desired value is a number comes out as an empty object: the last
  branch of the copy is \<^verbatim>\<open>Object.assign({}, from.Common[path])\<close>.
\<close>

lemma truth_number_example:
  "process [''mtu''] (JObj [(''Common'', JObj [(''mtu'', JNum 1500)])])
     (JObj [(''Common'', JObj [(''mtu'', JNum 1400)])])
   = Inr (JObj [(''Common'', JObj [(''mtu'', JObj [])])])"
  by code_simp

section \<open>Properties of DeclarationParser\<close>



















lemma in_concat_map_filter:
  "x \<in> set (concat (map g (filter P xs))) \<longleftrightarrow> (\<exists>y \<in> set xs. P y \<and> x \<in> set (g y))"
  by auto

lemma container_typed_filings_D:
  assumes "f \<in> set (container_typed_filings tn cn container)"
  shows "\<exists>ct key property pc. get_prop (Some container) ''class'' = Inr ct
     \<and> (key, property) \<in> set (own_props container) \<and> isKeyOfInterest key
     \<and> property_class property = Inr (Some pc)
     \<and> f = (typed_path ct tn cn key pc, stored_bag property)"
proof -
  from assms obtain ct where ct: "get_prop (Some container) ''class'' = Inr ct"
    by (cases "get_prop (Some container) ''class''") (auto simp: container_typed_filings_def)
  have "f \<in> set (concat (map (\<lambda>kv. case property_class (snd kv) of
                              Inr (Some pc) \<Rightarrow>
                                [(typed_path ct tn cn (fst kv) pc, stored_bag (snd kv))]
                            | _ \<Rightarrow> [])
                    (filter (\<lambda>kv. isKeyOfInterest (fst kv)) (own_props container))))"
    using assms ct by (simp add: container_typed_filings_def)
  then obtain kv where kv: "kv \<in> set (own_props container)" "isKeyOfInterest (fst kv)"
    and f: "f \<in> set (case property_class (snd kv) of
                       Inr (Some pc) \<Rightarrow> [(typed_path ct tn cn (fst kv) pc, stored_bag (snd kv))]
                     | _ \<Rightarrow> [])"
    unfolding in_concat_map_filter by blast
  obtain pc where pc: "property_class (snd kv) = Inr (Some pc)"
    and fe: "f = (typed_path ct tn cn (fst kv) pc, stored_bag (snd kv))"
  proof (cases "property_class (snd kv)")
    case (Inl e)
    then show ?thesis using f by simp
  next
    case (Inr opc)
    then show ?thesis using f that by (cases opc) simp_all
  qed
  have "(fst kv, snd kv) \<in> set (own_props container)" using kv(1) by simp
  then show ?thesis using ct kv(2) pc fe by blast
qed

lemma tenant_typed_filings_D:
  assumes "f \<in> set (tenant_typed_filings tn tenant)"
  shows "\<exists>kv \<in> set (own_props tenant). isKeyOfInterest (fst kv)
     \<and> f \<in> set (container_typed_filings tn (fst kv) (snd kv))"
  using assms unfolding tenant_typed_filings_def in_concat_map_filter .

lemma typed_filings_D:
  assumes "f \<in> set (typed_filings d)" and "getTenants (own_props d) = Inr ts"
  shows "\<exists>kv \<in> set (own_props d). fst kv \<in> set ts
     \<and> f \<in> set (tenant_typed_filings (fst kv) (snd kv))"
proof -
  have "f \<in> set (concat (map (\<lambda>kv. tenant_typed_filings (fst kv) (snd kv))
                    (filter (\<lambda>kv. fst kv \<in> set ts) (own_props d))))"
    using assms by (simp add: typed_filings_def)
  then show ?thesis unfolding in_concat_map_filter .
qed




lemma typed_filings_shape:
  assumes "f \<in> set (typed_filings d)"
  shows "\<exists>ct tn cn key pc property. f = (typed_path ct tn cn key pc, stored_bag property)"
proof -
  obtain ts where ts: "getTenants (own_props d) = Inr ts"
    using assms by (cases "getTenants (own_props d)") (auto simp: typed_filings_def)
  obtain kv where "f \<in> set (tenant_typed_filings (fst kv) (snd kv))"
    using typed_filings_D [OF assms ts] by blast
  then obtain kv' where "f \<in> set (container_typed_filings (fst kv) (fst kv') (snd kv'))"
    using tenant_typed_filings_D by blast
  then show ?thesis using container_typed_filings_D by blast
qed






text \<open>
  For two containers \<open>A\<close> and \<open>B\<close> of a tenant that is not named like an inherited member,
  both names are in the parsed document.
\<close>

lemma two_containers_parsed:
  "map_sum id parsedDeclaration (parse (DeclarationParser two_containers)) =
     Inr (JObj [(''Network'', JObj [(''Common'', JObj [(''VLAN'',
            JObj [(''A_x'', JObj [(''tag'', JNum 100)]),
                  (''B_x'', JObj [(''tag'', JNum 200)])])])])])"
  by code_simp


text \<open>
  Claim C3 does not hold of the code. The first normalization deletes the \<^verbatim>\<open>class\<close> key of
  each typed sub-instance in the objects of the declaration, so the second normalization
  of the same declaration object files \<^verbatim>\<open>myDns\<close> and \<^verbatim>\<open>commonVlan\<close> as plain properties.
\<close>

theorem parse_twice_differs:
  "parse_twice doc_example =
     Inr (JObj [(''System'', JObj [(''Common'', JObj [(''hostname'', JStr ''bigip.example.com''),
                   (''DNS'', JObj [(''myDns'', JObj [(''nameServers'', JArr [JStr ''1.2.3.4''])])])])]),
                (''Network'', JObj [(''Common'', JObj [(''VLAN'', JObj [(''myNetwork_commonVlan'',
                   JObj [(''tag'', JNum 2345),
                         (''1.1'', JObj [(''class'', JStr ''Interface''), (''tagged'', JBool True)])])])])])],
          JObj [(''System'', JObj [(''Common'', JObj [(''hostname'', JStr ''bigip.example.com''),
                   (''myDns'', JObj [(''nameServers'', JArr [JStr ''1.2.3.4''])])])]),
                (''Network'', JObj [(''Common'', JObj [(''myNetwork_commonVlan'',
                   JObj [(''tag'', JNum 2345),
                         (''1.1'', JObj [(''class'', JStr ''Interface''), (''tagged'', JBool True)])])])])])"
  by code_simp

text \<open>
  Claim C8 does not hold of \<^verbatim>\<open>DeclarationParser.parse\<close>: after the call, the sub-instances
  of the declaration have lost their \<^verbatim>\<open>class\<close> key.
\<close>

theorem parse_changes_declaration:
  "map_sum id declaration_after (parse (DeclarationParser doc_example)) =
     Inr (JObj [(''schemaVersion'', JStr ''0.1.0''), (''class'', JStr ''Device''),
            (''Common'', JObj [(''class'', JStr ''Tenant''),
               (''mySystem'', JObj [(''class'', JStr ''System''),
                   (''hostname'', JStr ''bigip.example.com''),
                   (''myDns'', JObj [(''nameServers'', JArr [JStr ''1.2.3.4''])])]),
               (''myNetwork'', JObj [(''class'', JStr ''Network''),
                   (''commonVlan'', JObj [(''tag'', JNum 2345),
                       (''1.1'', JObj [(''class'', JStr ''Interface''), (''tagged'', JBool True)])])])])])
   \<and> map_sum id declaration_after (parse (DeclarationParser doc_example)) \<noteq> Inr doc_example"
  by code_simp

section \<open>Properties of ConfigManager\<close>

lemma promise_all_first_rejection:
  assumes "Inl e' \<in> set ps"
  shows "\<exists>e. promise_all ps = Inl e \<and> Inl e \<in> set ps"
  using assms
proof (induction ps)
  case Nil
  then show ?case by simp
next
  case (Cons p ps)
  show ?case
  proof (cases p)
    case (Inl e)
    then show ?thesis by auto
  next
    case (Inr x)
    then have "Inl e' \<in> set ps" using Cons.prems by auto
    then obtain e where "promise_all ps = Inl e" "Inl e \<in> set ps" using Cons.IH by blast
    then show ?thesis using Inr by auto
  qed
qed

text \<open>
  Claim C10. When the reads before it have succeeded and the list of the cluster devices
  has been read, \<^verbatim>\<open>get\<close> is rejected with the error \<^verbatim>\<open>Too many devices match our name\<close>
  whenever the number of devices whose host name is that of the managed device is not
  one (none at all included); the state of the task and the snapshot store are left as
  they were, so no current state is produced.
\<close>

theorem token_resolution_requires_one_device:
  assumes "dbVarsOfInterest state declaration = Inr dbVars"
    and "bigip_list bigIp ''/tm/sys/provision'' = Inr provisioning"
    and "provisionedModules provisioning = Inr provisioned"
    and "deviceInfo bigIp = Inr info"
    and "get_prop (Some info) ''hostname'' = Inr hostName"
    and "bigip_list bigIp ''/tm/cm/device'' = Inr (JArr devices)"
    and "matching_devices hostName devices = Inr matching"
    and "length matching \<noteq> 1"
  shows "get env configItems bigIp declaration state doState
           = (Some (Failure ''Too many devices match our name''), state, doState)"
proof -
  have "info \<noteq> JNull" using assms(5) by auto
  then obtain configId where cid: "get_prop (Some info) ''machineId'' = Inr configId"
    using get_prop_plain [OF _ _ machineId_plain] by simp
  have "getTokenMap bigIp info = Inl (Failure ''Too many devices match our name'')"
  proof (cases matching)
    case Nil
    then show ?thesis using assms(5,6,7) by (simp add: getTokenMap_def bind_err_def)
  next
    case (Cons d ds)
    then obtain d' ds' where "ds = d' # ds'" using assms(8) by (cases ds) auto
    then show ?thesis using Cons assms(5,6,7) by (simp add: getTokenMap_def bind_err_def)
  qed
  then have "fetch env configItems bigIp declaration state
      = Inl (Failure ''Too many devices match our name'')"
    using assms(1-4) cid by (simp add: fetch_def bind_err_def)
  then show ?thesis by (simp add: get_def)
qed

theorem token_resolution_requires_one_device_witness:
  "matching_devices (Some (JStr ''bigip1''))
     [JObj [(''name'', JStr ''a''), (''hostname'', JStr ''bigip1'')],
      JObj [(''name'', JStr ''b''), (''hostname'', JStr ''bigip1'')]]
   = Inr [JObj [(''name'', JStr ''a''), (''hostname'', JStr ''bigip1'')],
          JObj [(''name'', JStr ''b''), (''hostname'', JStr ''bigip1'')]]
   \<and> get example_env [db_item]
        \<lparr>bigip_list = (\<lambda>p. Inr (JArr [JObj [(''name'', JStr ''a''), (''hostname'', JStr ''bigip1'')],
                                         JObj [(''name'', JStr ''b''), (''hostname'', JStr ''bigip1'')]])),
         deviceInfo = Inr (JObj [(''machineId'', JStr ''m1''), (''hostname'', JStr ''bigip1'')])\<rparr>
        db_declaration \<lparr>currentConfig = None, originalConfig = None\<rparr> (\<lambda>k. None)
      = (Some (Failure ''Too many devices match our name''),
         \<lparr>currentConfig = None, originalConfig = None\<rparr>, (\<lambda>k. None))"
proof -
  let ?ds = "[JObj [(''name'', JStr ''a''), (''hostname'', JStr ''bigip1'')],
              JObj [(''name'', JStr ''b''), (''hostname'', JStr ''bigip1'')]]"
  let ?info = "JObj [(''machineId'', JStr ''m1''), (''hostname'', JStr ''bigip1'')]"
  let ?dev = "\<lparr>bigip_list = (\<lambda>p. Inr (JArr ?ds)), deviceInfo = Inr ?info\<rparr>"
  let ?st = "\<lparr>currentConfig = None, originalConfig = None\<rparr>"
  have h1: "dbVarsOfInterest ?st db_declaration = Inr [''ui.advisory.text'']" by code_simp
  have h2: "bigip_list ?dev ''/tm/sys/provision'' = Inr (JArr ?ds)" by simp
  have h3: "provisionedModules (JArr ?ds) = Inr [Some (JStr ''a''), Some (JStr ''b'')]"
    by code_simp
  have h4: "deviceInfo ?dev = Inr ?info" by simp
  have h5: "get_prop (Some ?info) ''hostname'' = Inr (Some (JStr ''bigip1''))" by simp
  have h6: "bigip_list ?dev ''/tm/cm/device'' = Inr (JArr ?ds)" by simp
  have h7: "matching_devices (Some (JStr ''bigip1'')) ?ds = Inr ?ds" by code_simp
  have h8: "length ?ds \<noteq> 1" by simp
  show ?thesis
    using token_resolution_requires_one_device [OF h1 h2 h3 h4 h5 h6 h7 h8] h7 by simp
qed

text \<open>
  Claim C5. The synchronous first part of \<^verbatim>\<open>get\<close> having passed, a failure of a read
  rejects \<^verbatim>\<open>get\<close> with the error of a failed read, and the state of the task
  (\<^verbatim>\<open>state.currentConfig\<close> with it) and the snapshot store are left as they were: for the
  read of the provisioning, the read of the device info, the read of the cluster devices,
  the reads of the config items (joined by \<^verbatim>\<open>Promise.all\<close>) and, once the results have
  been processed, the reads of the references. Whatever makes \<^verbatim>\<open>get\<close> fail before the
  assignment of \<^verbatim>\<open>state.currentConfig\<close> leaves both unchanged.
\<close>

theorem read_failure_rejects_get:
  assumes "dbVarsOfInterest state declaration = Inr dbVars"
  shows "(\<forall>e. bigip_list bigIp ''/tm/sys/provision'' = Inl e
            \<longrightarrow> get env configItems bigIp declaration state doState = (Some e, state, doState))
    \<and> (\<forall>provisioning provisioned e.
          bigip_list bigIp ''/tm/sys/provision'' = Inr provisioning
          \<and> provisionedModules provisioning = Inr provisioned
          \<and> deviceInfo bigIp = Inl e
            \<longrightarrow> get env configItems bigIp declaration state doState = (Some e, state, doState))
    \<and> (\<forall>provisioning provisioned info e.
          bigip_list bigIp ''/tm/sys/provision'' = Inr provisioning
          \<and> provisionedModules provisioning = Inr provisioned
          \<and> deviceInfo bigIp = Inr info \<and> info \<noteq> JNull
          \<and> bigip_list bigIp ''/tm/cm/device'' = Inl e
            \<longrightarrow> get env configItems bigIp declaration state doState = (Some e, state, doState))
    \<and> (\<forall>provisioning provisioned info tokenMap.
          bigip_list bigIp ''/tm/sys/provision'' = Inr provisioning
          \<and> provisionedModules provisioning = Inr provisioned
          \<and> deviceInfo bigIp = Inr info
          \<and> getTokenMap bigIp info = Inr tokenMap
          \<and> (\<exists>configItem \<in> set configItems. \<exists>e'.
                read_item env bigIp provisioned tokenMap configItem = Inl e')
            \<longrightarrow> (\<exists>e. get env configItems bigIp declaration state doState = (Some e, state, doState)
                  \<and> (\<exists>configItem \<in> set configItems.
                        read_item env bigIp provisioned tokenMap configItem = Inl e)))
    \<and> (\<forall>provisioning provisioned info tokenMap results st.
          bigip_list bigIp ''/tm/sys/provision'' = Inr provisioning
          \<and> provisionedModules provisioning = Inr provisioned
          \<and> deviceInfo bigIp = Inr info
          \<and> getTokenMap bigIp info = Inr tokenMap
          \<and> promise_all (map (read_item env bigIp provisioned tokenMap) configItems) = Inr results
          \<and> fold_err (process_result env bigIp dbVars) (zip results configItems)
                \<lparr>building = [], referencePromises = [], referenceInfo = []\<rparr> = Inr st
          \<and> (\<exists>e'. Inl e' \<in> set (referencePromises st))
            \<longrightarrow> (\<exists>e. get env configItems bigIp declaration state doState = (Some e, state, doState)
                  \<and> Inl e \<in> set (referencePromises st)))
    \<and> (\<forall>e. fetch env configItems bigIp declaration state = Inl e
            \<longrightarrow> get env configItems bigIp declaration state doState = (Some e, state, doState))"
proof (intro conjI allI impI)
  fix e assume "bigip_list bigIp ''/tm/sys/provision'' = Inl e"
  then show "get env configItems bigIp declaration state doState = (Some e, state, doState)"
    using assms by (simp add: get_def fetch_def bind_err_def)
next
  fix provisioning provisioned e
  assume "bigip_list bigIp ''/tm/sys/provision'' = Inr provisioning
          \<and> provisionedModules provisioning = Inr provisioned
          \<and> deviceInfo bigIp = Inl e"
  then show "get env configItems bigIp declaration state doState = (Some e, state, doState)"
    using assms by (simp add: get_def fetch_def bind_err_def)
next
  fix provisioning provisioned info e
  assume h: "bigip_list bigIp ''/tm/sys/provision'' = Inr provisioning
          \<and> provisionedModules provisioning = Inr provisioned
          \<and> deviceInfo bigIp = Inr info \<and> info \<noteq> JNull
          \<and> bigip_list bigIp ''/tm/cm/device'' = Inl e"
  then obtain configId hostName where "get_prop (Some info) ''machineId'' = Inr configId"
    "get_prop (Some info) ''hostname'' = Inr hostName"
    using get_prop_plain [OF _ _ machineId_plain] get_prop_plain [OF _ _ hostname_plain] by simp
  then show "get env configItems bigIp declaration state doState = (Some e, state, doState)"
    using assms h by (simp add: get_def fetch_def getTokenMap_def bind_err_def)
next
  fix provisioning provisioned info tokenMap
  assume h: "bigip_list bigIp ''/tm/sys/provision'' = Inr provisioning
          \<and> provisionedModules provisioning = Inr provisioned
          \<and> deviceInfo bigIp = Inr info
          \<and> getTokenMap bigIp info = Inr tokenMap
          \<and> (\<exists>configItem \<in> set configItems. \<exists>e'.
                read_item env bigIp provisioned tokenMap configItem = Inl e')"
  then have "info \<noteq> JNull" by (auto simp: getTokenMap_def bind_err_def)
  then obtain configId where cid: "get_prop (Some info) ''machineId'' = Inr configId"
    using get_prop_plain [OF _ _ machineId_plain] by simp
  from h obtain e' where
    "Inl e' \<in> set (map (read_item env bigIp provisioned tokenMap) configItems)"
    by force
  then obtain e where
    pa: "promise_all (map (read_item env bigIp provisioned tokenMap) configItems) = Inl e"
    and mem: "Inl e \<in> set (map (read_item env bigIp provisioned tokenMap) configItems)"
    using promise_all_first_rejection by blast
  have "get env configItems bigIp declaration state doState = (Some e, state, doState)"
    using assms h cid pa by (simp add: get_def fetch_def bind_err_def)
  moreover have "\<exists>configItem \<in> set configItems.
      read_item env bigIp provisioned tokenMap configItem = Inl e"
    using mem by auto
  ultimately show "\<exists>e. get env configItems bigIp declaration state doState = (Some e, state, doState)
      \<and> (\<exists>configItem \<in> set configItems.
            read_item env bigIp provisioned tokenMap configItem = Inl e)"
    by blast
next
  fix provisioning provisioned info tokenMap results st
  assume h: "bigip_list bigIp ''/tm/sys/provision'' = Inr provisioning
          \<and> provisionedModules provisioning = Inr provisioned
          \<and> deviceInfo bigIp = Inr info
          \<and> getTokenMap bigIp info = Inr tokenMap
          \<and> promise_all (map (read_item env bigIp provisioned tokenMap) configItems) = Inr results
          \<and> fold_err (process_result env bigIp dbVars) (zip results configItems)
                \<lparr>building = [], referencePromises = [], referenceInfo = []\<rparr> = Inr st
          \<and> (\<exists>e'. Inl e' \<in> set (referencePromises st))"
  then have "info \<noteq> JNull" by (auto simp: getTokenMap_def bind_err_def)
  then obtain configId where cid: "get_prop (Some info) ''machineId'' = Inr configId"
    using get_prop_plain [OF _ _ machineId_plain] by simp
  from h obtain e where pa: "promise_all (referencePromises st) = Inl e"
    and mem: "Inl e \<in> set (referencePromises st)"
    using promise_all_first_rejection by blast
  have "get env configItems bigIp declaration state doState = (Some e, state, doState)"
    using assms h cid pa by (simp add: get_def fetch_def bind_err_def)
  then show "\<exists>e. get env configItems bigIp declaration state doState = (Some e, state, doState)
      \<and> Inl e \<in> set (referencePromises st)"
    using mem by blast
next
  fix e assume "fetch env configItems bigIp declaration state = Inl e"
  then show "get env configItems bigIp declaration state doState = (Some e, state, doState)"
    by (simp add: get_def)
qed

theorem read_failure_rejects_get_witness:
  "dbVarsOfInterest \<lparr>currentConfig = None, originalConfig = None\<rparr> db_declaration
     = Inr [''ui.advisory.text'']
   \<and> bigip_list \<lparr>bigip_list = (\<lambda>p. Inl (Failure ''connection refused'')),
                  deviceInfo = Inl (Failure ''connection refused'')\<rparr> ''/tm/sys/provision''
     = Inl (Failure ''connection refused'')
   \<and> get example_env [db_item]
        \<lparr>bigip_list = (\<lambda>p. Inl (Failure ''connection refused'')),
         deviceInfo = Inl (Failure ''connection refused'')\<rparr>
        db_declaration \<lparr>currentConfig = None, originalConfig = None\<rparr> (\<lambda>k. None)
      = (Some (Failure ''connection refused''),
         \<lparr>currentConfig = None, originalConfig = None\<rparr>, (\<lambda>k. None))"
proof -
  let ?dev = "\<lparr>bigip_list = (\<lambda>p. Inl (Failure ''connection refused'')),
               deviceInfo = Inl (Failure ''connection refused'')\<rparr>"
  let ?st = "\<lparr>currentConfig = None, originalConfig = None\<rparr>"
  have h1: "dbVarsOfInterest ?st db_declaration = Inr [''ui.advisory.text'']" by code_simp
  have h2: "bigip_list ?dev ''/tm/sys/provision'' = Inl (Failure ''connection refused'')" by simp
  show ?thesis
    using read_failure_rejects_get [OF h1, of ?dev example_env "[db_item]" "\<lambda>k. None"] h1 h2
    by simp
qed

text \<open>The read of a config item fails: \<^verbatim>\<open>get\<close> is rejected with its error.\<close>

lemma item_read_failure_example:
  "(case get example_env [db_item] (example_device (\<lambda>p. Inl (Failure ''not found'')))
           db_declaration \<lparr>currentConfig = None, originalConfig = None\<rparr> (\<lambda>k. None) of
      (e, s, d) \<Rightarrow> (e, s, d ''m1''))
   = (Some (Failure ''not found''), \<lparr>currentConfig = None, originalConfig = None\<rparr>, None)"
  by code_simp

text \<open>
  Claim C4 does not hold of the code for a falsy value. The snapshot has the db variable
  with the empty string as its value and the device now reports \<^verbatim>\<open>x\<close>: the entry of the
  snapshot is overwritten, because the test is \<^verbatim>\<open>!originalConfig.Common.DbVariables[dbVar]\<close>.
\<close>

theorem snapshot_falsy_value_overwritten:
  "(case get example_env [db_item] (example_device db_reads) db_declaration
           \<lparr>currentConfig = None, originalConfig = None\<rparr> (snapshot_with (JStr [])) of
      (e, s, d) \<Rightarrow> (e, d ''m1''))
   = (None, Some (JObj [(''parsed'', JBool True),
                        (''Common'', JObj [(''DbVariables'',
                           JObj [(''ui.advisory.text'', JStr ''x'')])])]))"
  by code_simp

text \<open>A value of the snapshot that is not falsy stays, and a missing one is added.\<close>

lemma snapshot_value_kept_example:
  "(case get example_env [db_item] (example_device db_reads) db_declaration
           \<lparr>currentConfig = None, originalConfig = None\<rparr> (snapshot_with (JStr ''old'')) of
      (e, s, d) \<Rightarrow> (e, d ''m1''))
   = (None, Some (JObj [(''parsed'', JBool True),
                        (''Common'', JObj [(''DbVariables'',
                           JObj [(''ui.advisory.text'', JStr ''old'')])])]))"
  by code_simp

lemma snapshot_value_added_example:
  "(case get example_env [db_item] (example_device db_reads) db_declaration
           \<lparr>currentConfig = None, originalConfig = None\<rparr>
           ((\<lambda>k. None)(''m1'' \<mapsto> JObj [(''parsed'', JBool True), (''Common'', JObj [])])) of
      (e, s, d) \<Rightarrow> (e, d ''m1''))
   = (None, Some (JObj [(''parsed'', JBool True),
                        (''Common'', JObj [(''DbVariables'',
                           JObj [(''ui.advisory.text'', JStr ''x'')])])]))"
  by code_simp

text \<open>
  Claim C9 does not hold of the code when the result of the read of the config item is
  one object: the instance is stored as \<^verbatim>\<open>currentConfig[schemaClass]\<close>, the reference is
  looked for at \<^verbatim>\<open>currentConfig[schemaClass][name]\<close>, and \<^verbatim>\<open>get\<close> is rejected with a
  TypeError. The same happens when the name of an item of an array starts with
  \<^verbatim>\<open>/Common/\<close>: the instance is stored under the name without it.
\<close>

theorem reference_of_single_object_rejected:
  "(case get example_env [foo_item] (example_device (foo_reads (foo_instance ''a''))) (JObj [])
           \<lparr>currentConfig = None, originalConfig = None\<rparr> (\<lambda>k. None) of
      (e, s, d) \<Rightarrow> (e, currentConfig s))
   = (Some TypeError, None)"
  by code_simp

lemma reference_of_prefixed_name_rejected:
  "(case get example_env [foo_item]
           (example_device (foo_reads (JArr [foo_instance ''/Common/a''])))
           (JObj []) \<lparr>currentConfig = None, originalConfig = None\<rparr> (\<lambda>k. None) of
      (e, s, d) \<Rightarrow> (e, currentConfig s))
   = (Some TypeError, None)"
  by code_simp

text \<open>For an array of items with plain names the reference is spliced in.\<close>

lemma reference_of_array_item_spliced:
  "(case get example_env [foo_item] (example_device (foo_reads (JArr [foo_instance ''a''])))
           (JObj []) \<lparr>currentConfig = None, originalConfig = None\<rparr> (\<lambda>k. None) of
      (e, s, d) \<Rightarrow> (e, currentConfig s))
   = (None, Some (JObj [(''parsed'', JBool True),
        (''Common'', JObj [(''Thing'', JObj [(''a'',
           JObj [(''mtu'', JNum 1500),
                 (''foo'', JArr [JObj [(''name'', JStr ''f1''), (''bar'', JNum 1)]])])])])]))"
  by code_simp


end
